theory Spec2Isabelle
  imports Main "HOL-Library.AList" "HOL-Library.Char_ord" "HOL-Library.List_Lexorder"
begin

section \<open>Strings\<close>

text \<open>
  A Python \<^verbatim>\<open>str\<close> is modelled as a \<^typ>\<open>string\<close>, one \<^typ>\<open>char\<close> per code point, so
  the model covers the texts whose code points are all below 256. Within that range
  \<^verbatim>\<open>str.isspace\<close> and the regular-expression class \<^verbatim>\<open>\s\<close> hold of the code points
  9 to 13, 28 to 32, 133 and 160; the classes \<^verbatim>\<open>[a-zA-Z_]\<close>, \<^verbatim>\<open>[a-zA-Z0-9_]\<close> and
  \<^verbatim>\<open>[a-f0-9]\<close> under \<^verbatim>\<open>re.IGNORECASE\<close> hold of ASCII characters only.
\<close>

definition is_space :: "char \<Rightarrow> bool" where
  "is_space c =
     (let n = (of_char c :: nat)
      in (9 \<le> n \<and> n \<le> 13) \<or> (28 \<le> n \<and> n \<le> 32) \<or> n = 133 \<or> n = 160)"

definition is_digit :: "char \<Rightarrow> bool" where
  "is_digit c = (let n = (of_char c :: nat) in 48 \<le> n \<and> n \<le> 57)"

definition is_upper :: "char \<Rightarrow> bool" where
  "is_upper c = (let n = (of_char c :: nat) in 65 \<le> n \<and> n \<le> 90)"

definition is_lower :: "char \<Rightarrow> bool" where
  "is_lower c = (let n = (of_char c :: nat) in 97 \<le> n \<and> n \<le> 122)"

text \<open>\<^verbatim>\<open>[a-zA-Z_]\<close>, the first character of a key.\<close>

definition key_start :: "char \<Rightarrow> bool" where
  "key_start c = (is_lower c \<or> is_upper c \<or> c = CHR ''_'')"

text \<open>\<^verbatim>\<open>[a-zA-Z0-9_]\<close>, the later characters of a key.\<close>

definition key_char :: "char \<Rightarrow> bool" where
  "key_char c = (key_start c \<or> is_digit c)"

text \<open>\<^verbatim>\<open>[a-f0-9]\<close> with \<^verbatim>\<open>re.IGNORECASE\<close>.\<close>

definition is_hex :: "char \<Rightarrow> bool" where
  "is_hex c =
     (let n = (of_char c :: nat)
      in is_digit c \<or> (97 \<le> n \<and> n \<le> 102) \<or> (65 \<le> n \<and> n \<le> 70))"

definition newline :: char where
  "newline = CHR 0x0A"

text \<open>\<^verbatim>\<open>str.rstrip()\<close> and \<^verbatim>\<open>str.strip()\<close> without arguments.\<close>

definition rstrip :: "string \<Rightarrow> string" where
  "rstrip s = rev (dropWhile is_space (rev s))"

definition strip :: "string \<Rightarrow> string" where
  "strip s = dropWhile is_space (rstrip s)"

text \<open>\<^verbatim>\<open>text.split('\n')\<close>: the pieces between newlines, always at least one piece.\<close>

fun split_newline :: "string \<Rightarrow> string list" where
  "split_newline [] = [[]]"
| "split_newline (c # cs) =
     (if c = newline then [] # split_newline cs
      else (case split_newline cs of
              [] \<Rightarrow> [[c]]
            | l # ls \<Rightarrow> (c # l) # ls))"

text \<open>\<^verbatim>\<open>'.'.join(parts)\<close>.\<close>

fun join_dot :: "string list \<Rightarrow> string" where
  "join_dot [] = []"
| "join_dot [p] = p"
| "join_dot (p # q # ps) = p @ ''.'' @ join_dot (q # ps)"

section \<open>The two line patterns\<close>

text \<open>
  The tail \<^verbatim>\<open>\s*(?:#.*)?$\<close> shared by both patterns, tried on what is left of the line:
  whitespace, then nothing more or a \<^verbatim>\<open>#\<close> with characters other than newline up to the
  end (\<^verbatim>\<open>$\<close> also matches before one final newline).
\<close>

definition comment_tail :: "string \<Rightarrow> bool" where
  "comment_tail r =
     (case dropWhile is_space r of
        [] \<Rightarrow> True
      | c # t \<Rightarrow> c = CHR ''#'' \<and>
          (let t' = dropWhile (\<lambda>x. x \<noteq> newline) t in t' = [] \<or> t' = [newline]))"

text \<open>
  The head \<^verbatim>\<open>^(\s*)([a-zA-Z_][a-zA-Z0-9_]*):\<close> shared by both patterns: group 1, group 2
  and the rest of the line after the colon. Each greedy star takes the longest run: the
  character that must follow it is outside the class it repeats, so no shorter choice
  can match.
\<close>

definition key_head :: "string \<Rightarrow> (string \<times> string \<times> string) option" where
  "key_head line =
     (let g1 = takeWhile is_space line; r1 = dropWhile is_space line
      in case r1 of
           [] \<Rightarrow> None
         | c # _ \<Rightarrow>
             if \<not> key_start c then None
             else (let g2 = takeWhile key_char r1; r2 = dropWhile key_char r1
                   in case r2 of
                        [] \<Rightarrow> None
                      | d # r3 \<Rightarrow> if d = CHR '':'' then Some (g1, g2, r3) else None))"

text \<open>
  \<^verbatim>\<open>block_id_pattern.match(line)\<close> for
  \<^verbatim>\<open>^(\s*)([a-zA-Z_][a-zA-Z0-9_]*):\s*([a-f0-9]{24})\s*(?:#.*)?$\<close>: groups 1, 2 and 3 of
  the match, or \<open>None\<close>.
\<close>

definition block_id_pattern :: "string \<Rightarrow> (string \<times> string \<times> string) option" where
  "block_id_pattern line =
     (case key_head line of
        None \<Rightarrow> None
      | Some (g1, g2, r3) \<Rightarrow>
          (let r4 = dropWhile is_space r3; g3 = take 24 r4; r5 = drop 24 r4
           in if length g3 = 24 \<and> list_all is_hex g3 \<and> comment_tail r5
              then Some (g1, g2, g3) else None))"

text \<open>
  \<^verbatim>\<open>key_value_pattern.match(line)\<close> for \<^verbatim>\<open>^(\s*)([a-zA-Z_][a-zA-Z0-9_]*):\s*(?:#.*)?$\<close>:
  groups 1 and 2 of the match, or \<open>None\<close>.
\<close>

definition key_value_pattern :: "string \<Rightarrow> (string \<times> string) option" where
  "key_value_pattern line =
     (case key_head line of
        None \<Rightarrow> None
      | Some (g1, g2, r3) \<Rightarrow> if comment_tail r3 then Some (g1, g2) else None)"

section \<open>The path stack and the parser\<close>

text \<open>
  \<open>path_stack\<close> is a Python list of \<open>(name, indent)\<close> pairs used as a stack whose top is
  the last element. A parsed reference is the triple \<open>(block_id, path, line_number)\<close>.
\<close>

type_synonym path_entry = "string \<times> nat"
type_synonym parsed_ref = "string \<times> string \<times> nat"
type_synonym parser_state = "path_entry list \<times> parsed_ref list"

text \<open>
  \<^verbatim>\<open>while path_stack and path_stack[-1][1] >= indent: path_stack.pop()\<close>
\<close>

function pop_stack :: "path_entry list \<Rightarrow> nat \<Rightarrow> path_entry list" where
  "pop_stack path_stack indent =
     (if path_stack \<noteq> [] \<and> snd (last path_stack) \<ge> indent
      then pop_stack (butlast path_stack) indent
      else path_stack)"
  by pat_completeness auto
termination
  by (relation "measure (\<lambda>(path_stack, indent). length path_stack)") auto

declare pop_stack.simps [simp del]

text \<open>The body of the loop over the numbered lines.\<close>

definition parse_line :: "parser_state \<Rightarrow> nat \<times> string \<Rightarrow> parser_state" where
  "parse_line st numbered =
     (let path_stack = fst st; block_ids = snd st;
          line_num = fst numbered; line = rstrip (snd numbered)
      in if strip line = [] then (path_stack, block_ids)
         else if take 1 (strip line) = ''#'' then (path_stack, block_ids)
         else (case block_id_pattern line of
                 Some (g1, var_name, block_id) \<Rightarrow>
                   (let indent = length g1;
                        path_stack' = pop_stack path_stack indent;
                        path = (if path_stack' \<noteq> []
                                then join_dot (map fst path_stack' @ [var_name])
                                else var_name)
                    in (path_stack' @ [(var_name, indent)],
                        block_ids @ [(block_id, path, line_num)]))
               | None \<Rightarrow>
                   (case key_value_pattern line of
                      Some (g1, var_name) \<Rightarrow>
                        (let indent = length g1
                         in (pop_stack path_stack indent @ [(var_name, indent)], block_ids))
                    | None \<Rightarrow> (path_stack, block_ids))))"

text \<open>The loop over \<^verbatim>\<open>enumerate(lines, 1)\<close>, from the empty stack and the empty result.\<close>

definition parse_lines :: "string list \<Rightarrow> parser_state" where
  "parse_lines lines = foldl parse_line ([], []) (List.enumerate 1 lines)"

definition parse_block_ids_from_text :: "string \<Rightarrow> parsed_ref list" where
  "parse_block_ids_from_text text = snd (parse_lines (split_newline text))"

text \<open>
  The branch of the loop body that a line takes, under the names the specification gives
  to the five kinds of line: the two \<^verbatim>\<open>continue\<close> branches, the branch of
  \<^verbatim>\<open>block_id_pattern\<close> with the indent, the key and the identifier, the branch of
  \<^verbatim>\<open>key_value_pattern\<close> with the indent and the key, and the line that matches neither.
\<close>

datatype line_class =
  Blank
| Comment
| LeafReference nat string string
| PathNode nat string
| Unrecognized

definition classify :: "string \<Rightarrow> line_class" where
  "classify original_line =
     (let line = rstrip original_line
      in if strip line = [] then Blank
         else if take 1 (strip line) = ''#'' then Comment
         else (case block_id_pattern line of
                 Some (g1, var_name, block_id) \<Rightarrow> LeafReference (length g1) var_name block_id
               | None \<Rightarrow>
                   (case key_value_pattern line of
                      Some (g1, var_name) \<Rightarrow> PathNode (length g1) var_name
                    | None \<Rightarrow> Unrecognized)))"

text \<open>The stack entry that a line pushes, if it pushes one.\<close>

definition key_of :: "string \<Rightarrow> path_entry option" where
  "key_of line =
     (case classify line of
        LeafReference indent name _ \<Rightarrow> Some (name, indent)
      | PathNode indent name \<Rightarrow> Some (name, indent)
      | _ \<Rightarrow> None)"

text \<open>
  The specification's reading of the stack, stated without a stack: of the entries pushed
  so far, in the order of their lines, the open ones are those that no later entry has
  closed, that is, whose indent is strictly below the indent of every later entry. The
  open ancestors of a leaf are the open entries strictly shallower than the leaf.
\<close>

fun open_entries :: "path_entry list \<Rightarrow> path_entry list" where
  "open_entries [] = []"
| "open_entries (e # es) =
     (if \<forall>x \<in> set es. snd e < snd x then e # open_entries es else open_entries es)"

definition open_ancestors :: "path_entry list \<Rightarrow> nat \<Rightarrow> path_entry list" where
  "open_ancestors es indent = filter (\<lambda>e. snd e < indent) (open_entries es)"

section \<open>Snapshots\<close>

text \<open>
  A scenario and a block are JSON objects read with \<^verbatim>\<open>dict.get\<close>: every field may be
  missing, and the values that are present are strings (the blocks, a list).
  \<open>get_default v d\<close> is \<^verbatim>\<open>d.get(key, default)\<close> on the field \<open>v\<close>.
\<close>

record item =
  item_id :: "string option"
  item_name :: "string option"

record scenario =
  scenario_id :: "string option"
  scenario_name :: "string option"
  scenario_items :: "item list option"

definition get_default :: "'a option \<Rightarrow> 'a \<Rightarrow> 'a" where
  "get_default v d = (case v of None \<Rightarrow> d | Some x \<Rightarrow> x)"

text \<open>
  The dictionary that the searches return for a block. The key \<^verbatim>\<open>'env'\<close> is present only
  on the dictionary that \<^verbatim>\<open>search_by_block_id_multi_env\<close> has marked as its source.
\<close>

record block_info =
  bi_scenario_id :: string
  bi_scenario_name :: string
  bi_block_id :: string
  bi_block_name :: string
  bi_env :: "string option"

text \<open>
  A Python dictionary keeps its keys in insertion order: it is an association list, read
  with \<^const>\<open>map_of\<close> and written with \<^const>\<open>AList.update\<close>, which replaces the value of a
  key in place and appends a new key at the end. The dictionary of the environments maps
  a name to a snapshot; the value is \<open>None\<close> for an environment that has none.
\<close>

type_synonym env_scenarios = "(string \<times> scenario list option) list"

text \<open>The truth value of \<^verbatim>\<open>scenarios\<close> in \<^verbatim>\<open>if scenarios:\<close>.\<close>

fun loaded :: "scenario list option \<Rightarrow> bool" where
  "loaded None = False"
| "loaded (Some []) = False"
| "loaded (Some (sc # scs)) = True"

section \<open>Lookup by identifier and by name\<close>

fun search_blocks_by_id :: "scenario list \<Rightarrow> string \<Rightarrow> block_info option" where
  "search_blocks_by_id [] block_id = None"
| "search_blocks_by_id (sc # scenarios) block_id =
     (case List.find (\<lambda>it. item_id it = Some block_id) (get_default (scenario_items sc) []) of
        Some it \<Rightarrow>
          Some \<lparr>bi_scenario_id = get_default (scenario_id sc) ''N/A'',
                bi_scenario_name = get_default (scenario_name sc) ''N/A'',
                bi_block_id = block_id,
                bi_block_name = get_default (item_name it) ''N/A'',
                bi_env = None\<rparr>
      | None \<Rightarrow> search_blocks_by_id scenarios block_id)"

text \<open>
  The body of the loop of \<^verbatim>\<open>find_matching_blocks_in_other_envs\<close> for one environment with
  a snapshot: the first scenario of that name, then its first block of that name.
\<close>

definition match_in_env :: "scenario list \<Rightarrow> string \<Rightarrow> string \<Rightarrow> block_info option" where
  "match_in_env scenarios sc_name block_name =
     (case List.find (\<lambda>sc. scenario_name sc = Some sc_name) scenarios of
        None \<Rightarrow> None
      | Some matching_scenario \<Rightarrow>
          (case List.find (\<lambda>it. item_name it = Some block_name)
                  (get_default (scenario_items matching_scenario) []) of
             None \<Rightarrow> None
           | Some it \<Rightarrow>
               Some \<lparr>bi_scenario_id = get_default (scenario_id matching_scenario) ''N/A'',
                     bi_scenario_name = sc_name,
                     bi_block_id = get_default (item_id it) ''N/A'',
                     bi_block_name = block_name,
                     bi_env = None\<rparr>))"

definition find_matching_blocks_in_other_envs ::
  "env_scenarios \<Rightarrow> string \<Rightarrow> string \<Rightarrow> string \<Rightarrow> (string \<times> block_info option) list" where
  "find_matching_blocks_in_other_envs envs source_env sc_name block_name =
     foldl (\<lambda>results (env_name, scenarios).
              AList.update env_name
                (case scenarios of
                   None \<Rightarrow> None
                 | Some scs \<Rightarrow> if loaded scenarios then match_in_env scs sc_name block_name else None)
                results)
       [] envs"

section \<open>Search by name\<close>

text \<open>\<^verbatim>\<open>str.lower()\<close> on code points below 256.\<close>

definition lower_char :: "char \<Rightarrow> char" where
  "lower_char c =
     (let n = (of_char c :: nat)
      in if (65 \<le> n \<and> n \<le> 90) \<or> (192 \<le> n \<and> n \<le> 222 \<and> n \<noteq> 215)
         then char_of (n + 32) else c)"

definition lower :: "string \<Rightarrow> string" where
  "lower s = map lower_char s"

text \<open>\<^verbatim>\<open>needle in hay\<close> on strings.\<close>

fun str_contains :: "string \<Rightarrow> string \<Rightarrow> bool" where
  "str_contains [] needle = (needle = [])"
| "str_contains (c # hay) needle =
     (take (length needle) (c # hay) = needle \<or> str_contains hay needle)"

definition search_blocks :: "scenario list \<Rightarrow> string \<Rightarrow> block_info list" where
  "search_blocks scenarios search_term =
     (if search_term = [] then []
      else concat (map (\<lambda>sc.
             map (\<lambda>it.
                    \<lparr>bi_scenario_id = get_default (scenario_id sc) ''N/A'',
                     bi_scenario_name = get_default (scenario_name sc) ''N/A'',
                     bi_block_id = get_default (item_id it) ''N/A'',
                     bi_block_name = get_default (item_name it) [],
                     bi_env = None\<rparr>)
               (filter (\<lambda>it. str_contains (lower (get_default (item_name it) [])) (lower search_term))
                  (get_default (scenario_items sc) [])))
           scenarios))"

definition search_blocks_multi_env ::
  "env_scenarios \<Rightarrow> string \<Rightarrow> (string \<times> block_info list) list" where
  "search_blocks_multi_env envs search_term =
     foldl (\<lambda>results (env_name, scenarios).
              AList.update env_name
                (case scenarios of
                   None \<Rightarrow> []
                 | Some scs \<Rightarrow> if loaded scenarios then search_blocks scs search_term else [])
                results)
       [] envs"

section \<open>Cross-environment matching\<close>

text \<open>A lookup of a missing key in a dictionary raises \<^verbatim>\<open>KeyError\<close>.\<close>

datatype py_error = KeyError string

text \<open>
  The first loop of \<^verbatim>\<open>search_by_block_id_multi_env\<close>, on the pair of \<^verbatim>\<open>found_blocks\<close> and
  \<^verbatim>\<open>source_info\<close>. The first dictionary found becomes \<^verbatim>\<open>source_info\<close> and is given
  the key \<^verbatim>\<open>'env'\<close>; it is the same object as the value stored in \<^verbatim>\<open>found_blocks\<close>, so
  the stored value carries the key too.
\<close>

definition id_scan_step ::
  "string \<Rightarrow> (string \<times> block_info option) list \<times> block_info option \<Rightarrow>
     string \<times> scenario list option \<Rightarrow>
     (string \<times> block_info option) list \<times> block_info option" where
  "id_scan_step block_id acc entry =
     (let found_blocks = fst acc; source_info = snd acc;
          env_name = fst entry; scenarios = snd entry
      in case scenarios of
           None \<Rightarrow> (AList.update env_name None found_blocks, source_info)
         | Some scs \<Rightarrow>
             if loaded scenarios
             then (case search_blocks_by_id scs block_id of
                     None \<Rightarrow> (AList.update env_name None found_blocks, source_info)
                   | Some block_info \<Rightarrow>
                       if source_info = None
                       then (let marked = block_info\<lparr>bi_env := Some env_name\<rparr>
                             in (AList.update env_name (Some marked) found_blocks, Some marked))
                       else (AList.update env_name (Some block_info) found_blocks, source_info))
             else (AList.update env_name None found_blocks, source_info))"

text \<open>
  The body of the merging loop:
  \<^verbatim>\<open>if matching_blocks[env_name] and not found_blocks[env_name]: found_blocks[env_name] = matching_blocks[env_name]\<close>,
  where \<^verbatim>\<open>found_blocks[env_name]\<close> is read only when the first operand is true.
\<close>

definition merge_step ::
  "(string \<times> block_info option) list \<Rightarrow> py_error + (string \<times> block_info option) list \<Rightarrow>
     string \<Rightarrow> py_error + (string \<times> block_info option) list" where
  "merge_step matching_blocks acc env_name =
     (case acc of
        Inl e \<Rightarrow> Inl e
      | Inr found_blocks \<Rightarrow>
          (case map_of matching_blocks env_name of
             None \<Rightarrow> Inl (KeyError env_name)
           | Some None \<Rightarrow> Inr found_blocks
           | Some (Some m) \<Rightarrow>
               (case map_of found_blocks env_name of
                  None \<Rightarrow> Inl (KeyError env_name)
                | Some None \<Rightarrow> Inr (AList.update env_name (Some m) found_blocks)
                | Some (Some f) \<Rightarrow> Inr found_blocks)))"

definition search_by_block_id_multi_env ::
  "env_scenarios \<Rightarrow> string \<Rightarrow> py_error + (string \<times> block_info option) list" where
  "search_by_block_id_multi_env envs block_id =
     (let scanned = foldl (id_scan_step block_id) ([], None) envs;
          found_blocks = fst scanned; source_info = snd scanned
      in case source_info of
           None \<Rightarrow> Inr found_blocks
         | Some src \<Rightarrow>
             (case bi_env src of
                None \<Rightarrow> Inl (KeyError ''env'')
              | Some source_env \<Rightarrow>
                  (let matching_blocks =
                         find_matching_blocks_in_other_envs envs source_env
                           (bi_scenario_name src) (bi_block_name src)
                   in foldl (merge_step matching_blocks) (Inr found_blocks)
                        (map fst matching_blocks))))"

section \<open>Validation\<close>

text \<open>The values of the dictionary \<^verbatim>\<open>all_blocks\<close> and the dictionaries of the result.\<close>

record index_entry =
  ie_scenario_id :: string
  ie_scenario_name :: string
  ie_block_name :: string

record validation_result =
  vr_block_id :: string
  vr_path :: string
  vr_line_number :: nat
  vr_valid :: bool
  vr_scenario_id :: "string option"
  vr_scenario_name :: "string option"
  vr_block_name :: "string option"

text \<open>The inner and the outer loop that fill \<^verbatim>\<open>all_blocks\<close>.\<close>

definition index_item ::
  "scenario \<Rightarrow> (string \<times> index_entry) list \<Rightarrow> item \<Rightarrow> (string \<times> index_entry) list" where
  "index_item sc all_blocks it =
     AList.update (get_default (item_id it) ''N/A'')
       \<lparr>ie_scenario_id = get_default (scenario_id sc) ''N/A'',
        ie_scenario_name = get_default (scenario_name sc) ''N/A'',
        ie_block_name = get_default (item_name it) ''N/A''\<rparr>
       all_blocks"

definition index_scenario ::
  "(string \<times> index_entry) list \<Rightarrow> scenario \<Rightarrow> (string \<times> index_entry) list" where
  "index_scenario all_blocks sc =
     foldl (index_item sc) all_blocks (get_default (scenario_items sc) [])"

definition all_blocks_of :: "scenario list \<Rightarrow> (string \<times> index_entry) list" where
  "all_blocks_of scenarios = foldl index_scenario [] scenarios"

definition validate_one :: "(string \<times> index_entry) list \<Rightarrow> parsed_ref \<Rightarrow> validation_result" where
  "validate_one all_blocks ref =
     (case ref of (block_id, path, line_num) \<Rightarrow>
        (case map_of all_blocks block_id of
           Some block_info \<Rightarrow>
             \<lparr>vr_block_id = block_id, vr_path = path, vr_line_number = line_num,
              vr_valid = True,
              vr_scenario_id = Some (ie_scenario_id block_info),
              vr_scenario_name = Some (ie_scenario_name block_info),
              vr_block_name = Some (ie_block_name block_info)\<rparr>
         | None \<Rightarrow>
             \<lparr>vr_block_id = block_id, vr_path = path, vr_line_number = line_num,
              vr_valid = False,
              vr_scenario_id = None, vr_scenario_name = None, vr_block_name = None\<rparr>))"

definition validate_block_ids ::
  "parsed_ref list \<Rightarrow> scenario list \<Rightarrow> string \<Rightarrow> validation_result list" where
  "validate_block_ids block_ids scenarios env_name =
     map (validate_one (all_blocks_of scenarios)) block_ids"

section \<open>The search mode of the main loop\<close>

text \<open>
  The rows that \<^verbatim>\<open>display_search_results_multi_env\<close> prints: the dictionary
  \<^verbatim>\<open>block_groups\<close>, keyed by the string \<^verbatim>\<open>f"{scenario_name}::{block_name}"\<close>, and its items
  in the order of \<^verbatim>\<open>sorted\<close>. The keys of a dictionary differ, so \<^verbatim>\<open>sorted\<close> orders the
  items by their keys, which Python compares code point by code point.
\<close>

record block_group =
  bg_scenario_name :: string
  bg_block_name :: string
  bg_envs :: "(string \<times> string \<times> string) list"

definition group_key :: "block_info \<Rightarrow> string" where
  "group_key result = bi_scenario_name result @ ''::'' @ bi_block_name result"

definition add_result ::
  "string \<Rightarrow> (string \<times> block_group) list \<Rightarrow> block_info \<Rightarrow> (string \<times> block_group) list" where
  "add_result env_name block_groups result =
     (let key = group_key result;
          g = (case map_of block_groups key of
                 None \<Rightarrow> \<lparr>bg_scenario_name = bi_scenario_name result,
                           bg_block_name = bi_block_name result,
                           bg_envs = []\<rparr>
               | Some g \<Rightarrow> g)
      in AList.update key
           (g\<lparr>bg_envs := AList.update env_name (bi_scenario_id result, bi_block_id result)
                            (bg_envs g)\<rparr>)
           block_groups)"

definition block_groups_of ::
  "(string \<times> block_info list) list \<Rightarrow> (string \<times> block_group) list" where
  "block_groups_of env_results =
     foldl (\<lambda>block_groups (env_name, results). foldl (add_result env_name) block_groups results)
       [] env_results"

definition display_search_results_multi_env ::
  "(string \<times> block_info list) list \<Rightarrow> (string \<times> block_group) list" where
  "display_search_results_multi_env env_results =
     (if sum_list (map (\<lambda>(env_name, results). length results) env_results) = 0 then []
      else sort_key fst (block_groups_of env_results))"

text \<open>
  The loop of the search mode that decides between the two searches:
  \<^verbatim>\<open>block_id_found\<close> becomes true at the first environment with a snapshot in which the
  input is the identifier of a block.
\<close>

fun block_id_found :: "env_scenarios \<Rightarrow> string \<Rightarrow> bool" where
  "block_id_found [] search_input = False"
| "block_id_found ((env_name, scenarios) # envs) search_input =
     (case scenarios of
        None \<Rightarrow> block_id_found envs search_input
      | Some scs \<Rightarrow>
          if loaded scenarios \<and> search_blocks_by_id scs search_input \<noteq> None then True
          else block_id_found envs search_input)"

text \<open>
  One round of the loop of the search mode, on the line that the user typed:
  \<^verbatim>\<open>search_input = input(...).strip()\<close>; the inputs \<^verbatim>\<open>0\<close> and \<^verbatim>\<open>exit\<close> (in any case) end the
  search mode before any search, an empty input only prints a request for a search
  term, and every other input is searched as an identifier or else as a name.
\<close>

datatype search_output =
  SearchModeEnds
| NoSearchTerm
| BlockIdResults "py_error + (string \<times> block_info option) list"
| NameResults "(string \<times> block_group) list"

definition main_search :: "env_scenarios \<Rightarrow> string \<Rightarrow> search_output" where
  "main_search envs typed =
     (let search_input = strip typed
      in if search_input = ''0'' \<or> lower search_input = ''exit'' then SearchModeEnds
         else if search_input \<noteq> []
         then (if block_id_found envs search_input
               then BlockIdResults (search_by_block_id_multi_env envs search_input)
               else NameResults
                      (display_search_results_multi_env
                         (search_blocks_multi_env envs search_input)))
         else NoSearchTerm)"

section \<open>The lookups of the specification\<close>

text \<open>
  The two operations of the specification's Dataset Index, on the snapshot of an
  environment that may have none: \<open>byIdentifier\<close> is the first block with the identifier,
  \<open>byCollectionAndItemName\<close> the first block of the name in the first scenario of the
  name. They are what the code computes under its test \<^verbatim>\<open>if scenarios:\<close>, since both
  searches find nothing in an empty snapshot.
\<close>

definition by_identifier :: "scenario list option \<Rightarrow> string \<Rightarrow> block_info option" where
  "by_identifier snapshot block_id =
     (case snapshot of None \<Rightarrow> None | Some scs \<Rightarrow> search_blocks_by_id scs block_id)"

definition by_collection_and_item_name ::
  "scenario list option \<Rightarrow> string \<Rightarrow> string \<Rightarrow> block_info option" where
  "by_collection_and_item_name snapshot sc_name block_name =
     (case snapshot of None \<Rightarrow> None | Some scs \<Rightarrow> match_in_env scs sc_name block_name)"

section \<open>Example data\<close>

text \<open>
  Concrete inputs for the examples below: a list of parsed references in which one
  identifier occurs at two paths, a snapshot that holds that identifier once, and a
  snapshot in which two blocks carry it.
\<close>

definition example_refs :: "parsed_ref list" where
  "example_refs =
     [(''67d2804ef38a8bfdf0172bce'', ''a.b'', 2), (''67d2804ef38a8bfdf0172bce'', ''c'', 5),
      (''0123456789abcdef01234567'', ''d'', 7)]"

definition example_snapshot :: "scenario list" where
  "example_snapshot =
     [\<lparr>scenario_id = Some ''s1'', scenario_name = Some ''S1'',
       scenario_items =
         Some [\<lparr>item_id = Some ''67d2804ef38a8bfdf0172bce'', item_name = Some ''blk''\<rparr>]\<rparr>]"

definition duplicate_snapshot :: "scenario list" where
  "duplicate_snapshot =
     [\<lparr>scenario_id = Some ''s1'', scenario_name = Some ''S1'',
       scenario_items =
         Some [\<lparr>item_id = Some ''67d2804ef38a8bfdf0172bce'', item_name = Some ''first''\<rparr>,
               \<lparr>item_id = Some ''67d2804ef38a8bfdf0172bce'', item_name = Some ''second''\<rparr>]\<rparr>]"

text \<open>
  Three snapshots, used in the dictionaries of environments below. In \<open>env_a\<close> and \<open>env_c\<close> the block
  \<open>blk\<close> of the scenario \<open>S1\<close> has different identifiers; \<open>env_b\<close> is \<open>env_c\<close> with one more
  scenario, in which another block has the identifier that \<open>blk\<close> has in \<open>env_a\<close>.
\<close>

definition env_a :: "scenario list" where
  "env_a =
     [\<lparr>scenario_id = Some ''sa1'', scenario_name = Some ''S1'',
       scenario_items =
         Some [\<lparr>item_id = Some ''67d2804ef38a8bfdf0172bce'', item_name = Some ''blk''\<rparr>]\<rparr>]"

definition env_c :: "scenario list" where
  "env_c =
     [\<lparr>scenario_id = Some ''sb1'', scenario_name = Some ''S1'',
       scenario_items =
         Some [\<lparr>item_id = Some ''0123456789abcdef01234567'', item_name = Some ''blk''\<rparr>]\<rparr>]"

definition env_b :: "scenario list" where
  "env_b =
     env_c @
     [\<lparr>scenario_id = Some ''sb2'', scenario_name = Some ''S2'',
       scenario_items =
         Some [\<lparr>item_id = Some ''67d2804ef38a8bfdf0172bce'', item_name = Some ''other''\<rparr>]\<rparr>]"

text \<open>
  A snapshot with two scenarios of the name \<open>S1\<close>, of which only the second has the
  block \<open>blk\<close>.
\<close>

definition env_dup :: "scenario list" where
  "env_dup =
     [\<lparr>scenario_id = Some ''sd1'', scenario_name = Some ''S1'',
       scenario_items =
         Some [\<lparr>item_id = Some ''aaaaaaaaaaaaaaaaaaaaaaaa'', item_name = Some ''zzz''\<rparr>]\<rparr>] @ env_c"

definition example_envs :: env_scenarios where
  "example_envs = [(''dev'', Some env_a), (''prod'', Some env_c), (''stg'', None)]"

definition conflicting_envs :: env_scenarios where
  "conflicting_envs = [(''dev'', Some env_a), (''prod'', Some env_b)]"

definition dup_envs :: env_scenarios where
  "dup_envs = [(''dev'', Some env_a), (''prod'', Some env_dup)]"


text \<open>
  A snapshot with two blocks of different scenario and block names whose names, joined
  by \<^verbatim>\<open>::\<close>, are the same string.
\<close>

definition colliding_snapshot :: "scenario list" where
  "colliding_snapshot =
     [\<lparr>scenario_id = Some ''s1'', scenario_name = Some ''a'',
       scenario_items =
         Some [\<lparr>item_id = Some ''67d2804ef38a8bfdf0172bce'', item_name = Some ''b::c''\<rparr>]\<rparr>,
      \<lparr>scenario_id = Some ''s2'', scenario_name = Some ''a::b'',
       scenario_items =
         Some [\<lparr>item_id = Some ''0123456789abcdef01234567'', item_name = Some ''c''\<rparr>]\<rparr>]"

section \<open>Properties of the parser\<close>

text \<open>The loop body, by the kind of the line.\<close>

lemma parse_line_classify:
  "parse_line st (n, line) =
     (case classify line of
        LeafReference indent name bid \<Rightarrow>
          (pop_stack (fst st) indent @ [(name, indent)],
           snd st @ [(bid, join_dot (map fst (pop_stack (fst st) indent) @ [name]), n)])
      | PathNode indent name \<Rightarrow> (pop_stack (fst st) indent @ [(name, indent)], snd st)
      | _ \<Rightarrow> st)"
  by (simp add: parse_line_def classify_def Let_def split: option.splits prod.splits)

lemma pop_stack_Nil [simp]: "pop_stack [] i = []"
  by (simp add: pop_stack.simps)

lemma pop_stack_snoc [simp]:
  "pop_stack (st @ [e]) i = (if i \<le> snd e then pop_stack st i else st @ [e])"
  by (subst pop_stack.simps) simp

lemma pop_stack_filter:
  "sorted_wrt (<) (map snd st) \<Longrightarrow> pop_stack st i = filter (\<lambda>e. snd e < i) st"
proof (induction st rule: rev_induct)
  case Nil
  then show ?case by simp
next
  case (snoc e st)
  then have s: "sorted_wrt (<) (map snd st)" and lt: "\<forall>x \<in> set st. snd x < snd e"
    by (auto simp: sorted_wrt_append)
  show ?case
  proof (cases "i \<le> snd e")
    case True
    with snoc.IH [OF s] show ?thesis by simp
  next
    case False
    with lt have "\<forall>x \<in> set st. snd x < i" by auto
    then have "filter (\<lambda>e. snd e < i) st = st" by (simp add: filter_id_conv)
    with False show ?thesis by simp
  qed
qed

lemma set_open_entries: "set (open_entries es) \<subseteq> set es"
  by (induction es) auto

lemma sorted_open_entries: "sorted_wrt (<) (map snd (open_entries es))"
proof (induction es)
  case Nil
  then show ?case by simp
next
  case (Cons e es)
  have "\<forall>x \<in> set es. snd e < snd x \<Longrightarrow> \<forall>x \<in> set (open_entries es). snd e < snd x"
    using set_open_entries [of es] by blast
  with Cons show ?case by auto
qed

lemma open_entries_snoc:
  "open_entries (es @ [e]) = filter (\<lambda>x. snd x < snd e) (open_entries es) @ [e]"
proof (induction es)
  case Nil
  then show ?case by simp
next
  case (Cons a es)
  then show ?case by auto
qed

lemma parse_lines_Nil [simp]: "parse_lines [] = ([], [])"
  by (simp add: parse_lines_def)

lemma parse_lines_snoc:
  "parse_lines (ls @ [l]) = parse_line (parse_lines ls) (Suc (length ls), l)"
  by (simp add: parse_lines_def enumerate_append_eq)

lemma stack_open_entries:
  "fst (parse_lines ls) = open_entries (List.map_filter key_of ls)"
proof (induction ls rule: rev_induct)
  case Nil
  then show ?case by (simp add: map_filter_def)
next
  case (snoc l ls)
  show ?case
  proof (cases "key_of l")
    case None
    then have "parse_line (parse_lines ls) (Suc (length ls), l) = parse_lines ls"
      by (auto simp: parse_line_classify key_of_def split: line_class.splits)
    with None snoc show ?thesis
      by (simp add: parse_lines_snoc map_filter_def)
  next
    case (Some e)
    then have "fst (parse_line (parse_lines ls) (Suc (length ls), l))
               = pop_stack (fst (parse_lines ls)) (snd e) @ [e]"
      by (auto simp: parse_line_classify key_of_def split: line_class.splits)
    with Some snoc show ?thesis
      by (simp add: parse_lines_snoc map_filter_def open_entries_snoc
            pop_stack_filter sorted_open_entries)
  qed
qed


lemma pop_stack_open_entries:
  "pop_stack (fst (parse_lines ls)) i = open_ancestors (List.map_filter key_of ls) i"
  by (simp add: stack_open_entries open_ancestors_def pop_stack_filter sorted_open_entries)

lemma parse_line_refs:
  "snd (parse_line st (n, l)) =
     snd st @ (case classify l of
                 LeafReference indent name bid \<Rightarrow>
                   [(bid, join_dot (map fst (pop_stack (fst st) indent) @ [name]), n)]
               | _ \<Rightarrow> [])"
  by (simp add: parse_line_classify split: line_class.splits)

lemma parse_lines_refs_list:
  "snd (parse_lines ls) =
     concat (map (\<lambda>k. case classify (ls ! k) of
                         LeafReference i nm b \<Rightarrow>
                           [(b, join_dot (map fst (open_ancestors (List.map_filter key_of (take k ls)) i) @ [nm]), Suc k)]
                       | _ \<Rightarrow> [])
               [0..<length ls])"
proof (induction ls rule: rev_induct)
  case Nil
  then show ?case by simp
next
  case (snoc l ls)
  let ?F = "\<lambda>xs k. case classify (xs ! k) of
                         LeafReference i nm b \<Rightarrow>
                           [(b, join_dot (map fst (open_ancestors (List.map_filter key_of (take k xs)) i) @ [nm]), Suc k)]
                       | _ \<Rightarrow> []"
  have old: "map (?F (ls @ [l])) [0..<length ls] = map (?F ls) [0..<length ls]"
    by (rule map_cong) (simp_all add: nth_append split: line_class.splits)
  have new: "snd (parse_lines (ls @ [l])) = snd (parse_lines ls) @ ?F (ls @ [l]) (length ls)"
    by (simp add: parse_lines_snoc parse_line_refs pop_stack_open_entries split: line_class.splits)
  show ?case
    apply (subst new)
    apply (subst snoc.IH)
    apply (subst old [symmetric])
    apply simp
    done
qed

lemma parse_lines_refs:
  "(bid, path, n) \<in> set (snd (parse_lines ls)) \<longleftrightarrow>
     1 \<le> n \<and> n \<le> length ls \<and>
     (\<exists>indent name. classify (ls ! (n - 1)) = LeafReference indent name bid \<and>
        path = join_dot (map fst (open_ancestors (List.map_filter key_of (take (n - 1) ls)) indent) @ [name]))"
proof -
  define F where "F = (\<lambda>k. case classify (ls ! k) of
                         LeafReference i nm b \<Rightarrow>
                           [(b, join_dot (map fst (open_ancestors (List.map_filter key_of (take k ls)) i) @ [nm]), Suc k)]
                       | _ \<Rightarrow> [])"
  define P where "P = (\<lambda>k. \<exists>indent name. classify (ls ! k) = LeafReference indent name bid \<and>
        path = join_dot (map fst (open_ancestors (List.map_filter key_of (take k ls)) indent) @ [name]))"
  have refs: "set (snd (parse_lines ls)) = (\<Union>k\<in>{0..<length ls}. set (F k))"
    unfolding parse_lines_refs_list F_def by simp
  have Fk: "(bid, path, n) \<in> set (F k) \<longleftrightarrow> n = Suc k \<and> P k" for k
    unfolding F_def P_def by (cases "classify (ls ! k)") auto
  have "(bid, path, n) \<in> set (snd (parse_lines ls)) \<longleftrightarrow> (\<exists>k < length ls. n = Suc k \<and> P k)"
    unfolding refs using Fk by auto
  also have "\<dots> \<longleftrightarrow> 1 \<le> n \<and> n \<le> length ls \<and> P (n - 1)"
    by (cases n) auto
  finally show ?thesis
    unfolding P_def .
qed


lemma pop_stack_prefix: "\<exists>rest. st = pop_stack st i @ rest"
proof (induction st rule: rev_induct)
  case Nil
  then show ?case by simp
next
  case (snoc e st)
  then obtain rest where r: "st = pop_stack st i @ rest" by blast
  show ?case
  proof (cases "i \<le> snd e")
    case True
    then have "pop_stack (st @ [e]) i = pop_stack st i" by simp
    with r show ?thesis by (metis append.assoc)
  next
    case False
    then have "pop_stack (st @ [e]) i = st @ [e]" by simp
    then show ?thesis by (metis append_Nil2)
  qed
qed

text \<open>
  Claim C1, as the code has it. A reference with line number \<open>n\<close> is emitted exactly when
  line \<open>n\<close> is a leaf-reference line, and its path is the dot-join of the names of the open
  ancestors of the leaf followed by the leaf's key: the entries of earlier path-node lines
  and of earlier leaf-reference lines alike whose indent is strictly below the indent
  of every later keyed line before the leaf and strictly below the leaf's indent. For
  lines of indents 0, 2, 4, 2 whose fourth is a leaf, whatever the fifth line is, the
  reference of line 4 has one ancestor segment, the name of the first line, of indent 0.
\<close>

theorem path_is_open_ancestors:
  "((bid, path, n) \<in> set (parse_block_ids_from_text text) \<longleftrightarrow>
      1 \<le> n \<and> n \<le> length (split_newline text) \<and>
      (\<exists>indent name.
          classify (split_newline text ! (n - 1)) = LeafReference indent name bid \<and>
          path = join_dot (map fst (open_ancestors
                   (List.map_filter key_of (take (n - 1) (split_newline text))) indent) @ [name]))) \<and>
   (key_of l1 = Some (n1, 0) \<and> key_of l2 = Some (n2, 2) \<and> key_of l3 = Some (n3, 4) \<and>
    classify l4 = LeafReference 2 n4 b4 \<longrightarrow>
      ((b, p, 4) \<in> set (snd (parse_lines [l1, l2, l3, l4, l5])) \<longleftrightarrow>
         b = b4 \<and> p = n1 @ ''.'' @ n4))"
proof (intro conjI impI)
  show "(bid, path, n) \<in> set (parse_block_ids_from_text text) \<longleftrightarrow>
      1 \<le> n \<and> n \<le> length (split_newline text) \<and>
      (\<exists>indent name.
          classify (split_newline text ! (n - 1)) = LeafReference indent name bid \<and>
          path = join_dot (map fst (open_ancestors
                   (List.map_filter key_of (take (n - 1) (split_newline text))) indent) @ [name]))"
    unfolding parse_block_ids_from_text_def by (rule parse_lines_refs)
next
  assume h: "key_of l1 = Some (n1, 0) \<and> key_of l2 = Some (n2, 2) \<and> key_of l3 = Some (n3, 4) \<and>
    classify l4 = LeafReference 2 n4 b4"
  then have "List.map_filter key_of [l1, l2, l3] = [(n1, 0), (n2, 2), (n3, 4)]"
    by (simp add: map_filter_def)
  then have anc: "open_ancestors (List.map_filter key_of (take (4 - 1) [l1, l2, l3, l4, l5])) i
               = filter (\<lambda>e. snd e < i) [(n1, 0), (n2, 2), (n3, 4)]" for i
    by (simp add: open_ancestors_def)
  from h have l4: "classify ([l1, l2, l3, l4, l5] ! (4 - 1)) = LeafReference 2 n4 b4"
    by simp
  show "(b, p, 4) \<in> set (snd (parse_lines [l1, l2, l3, l4, l5])) \<longleftrightarrow>
         b = b4 \<and> p = n1 @ ''.'' @ n4"
    unfolding parse_lines_refs anc l4 by auto
qed

text \<open>
  Claim C3: after every prefix of the lines the indents of the stack increase strictly
  from bottom to top, and the ancestor segments of every emitted path are the names of
  the stack entries left by the pops, a prefix of the stack before the line, all of
  indent strictly below the indent of the reference.
\<close>

theorem stack_strictly_increasing:
  "sorted_wrt (<) (map snd (fst (parse_lines (take k (split_newline text))))) \<and>
   ((bid, path, n) \<in> set (parse_block_ids_from_text text) \<longrightarrow>
      (\<exists>indent name anc rest.
          classify (split_newline text ! (n - 1)) = LeafReference indent name bid \<and>
          fst (parse_lines (take (n - 1) (split_newline text))) = anc @ rest \<and>
          anc = pop_stack (fst (parse_lines (take (n - 1) (split_newline text)))) indent \<and>
          path = join_dot (map fst anc @ [name]) \<and>
          (\<forall>e \<in> set anc. snd e < indent)))"
proof (intro conjI impI)
  show "sorted_wrt (<) (map snd (fst (parse_lines (take k (split_newline text)))))"
    by (simp add: stack_open_entries sorted_open_entries)
next
  assume "(bid, path, n) \<in> set (parse_block_ids_from_text text)"
  then obtain indent name where
    c: "classify (split_newline text ! (n - 1)) = LeafReference indent name bid" and
    p: "path = join_dot (map fst (open_ancestors
           (List.map_filter key_of (take (n - 1) (split_newline text))) indent) @ [name])"
    unfolding parse_block_ids_from_text_def parse_lines_refs by blast
  let ?st = "fst (parse_lines (take (n - 1) (split_newline text)))"
  have eq: "pop_stack ?st indent
            = open_ancestors (List.map_filter key_of (take (n - 1) (split_newline text))) indent"
    by (rule pop_stack_open_entries)
  obtain rest where r: "?st = pop_stack ?st indent @ rest"
    using pop_stack_prefix by blast
  have lt: "\<forall>e \<in> set (pop_stack ?st indent). snd e < indent"
    unfolding eq open_ancestors_def by simp
  from c p r lt eq show "\<exists>indent name anc rest.
          classify (split_newline text ! (n - 1)) = LeafReference indent name bid \<and>
          fst (parse_lines (take (n - 1) (split_newline text))) = anc @ rest \<and>
          anc = pop_stack (fst (parse_lines (take (n - 1) (split_newline text)))) indent \<and>
          path = join_dot (map fst anc @ [name]) \<and>
          (\<forall>e \<in> set anc. snd e < indent)"
    by metis
qed


text \<open>The hypotheses of the example hold of five concrete lines.\<close>

theorem path_is_open_ancestors_witness:
  "key_of ''a:'' = Some (''a'', 0) \<and> key_of ''  b:'' = Some (''b'', 2) \<and>
   key_of ''    c:'' = Some (''c'', 4) \<and>
   classify ''  d: 67d2804ef38a8bfdf0172bce'' = LeafReference 2 ''d'' ''67d2804ef38a8bfdf0172bce'' \<and>
   (''67d2804ef38a8bfdf0172bce'', ''a.d'', 4) \<in>
      set (snd (parse_lines [''a:'', ''  b:'', ''    c:'', ''  d: 67d2804ef38a8bfdf0172bce'', ''e:'']))"
proof -
  have h: "key_of ''a:'' = Some (''a'', 0) \<and> key_of ''  b:'' = Some (''b'', 2) \<and>
      key_of ''    c:'' = Some (''c'', 4) \<and>
      classify ''  d: 67d2804ef38a8bfdf0172bce'' = LeafReference 2 ''d'' ''67d2804ef38a8bfdf0172bce''"
    by code_simp
  from path_is_open_ancestors [THEN conjunct2, rule_format, OF h,
      of "''67d2804ef38a8bfdf0172bce''" "''a.d''" "''e:''"]
  have "(''67d2804ef38a8bfdf0172bce'', ''a.d'', 4) \<in>
      set (snd (parse_lines [''a:'', ''  b:'', ''    c:'', ''  d: 67d2804ef38a8bfdf0172bce'', ''e:'']))"
    by simp
  with h show ?thesis by simp
qed

text \<open>
  Claim C1 as stated fails twice. With indents 0, 2, 4, 2, 0 the one ancestor segment of
  the leaf \<open>d\<close> is \<open>a\<close>, the node of indent 0, and not \<open>b\<close>, the first node of indent 2.
  And the ancestor \<open>a\<close> in the path \<open>a.b\<close> of the second text is a leaf-reference line, not
  a path node.
\<close>

theorem path_ancestors_counterexample:
  "parse_block_ids_from_text
     ''a:\<newline>  b:\<newline>    c:\<newline>  d: 67d2804ef38a8bfdf0172bce\<newline>e:'' =
     [(''67d2804ef38a8bfdf0172bce'', ''a.d'', 4)] \<and>
   key_of ''a:'' = Some (''a'', 0) \<and> key_of ''  b:'' = Some (''b'', 2) \<and>
   parse_block_ids_from_text
     ''a: 67d2804ef38a8bfdf0172bce\<newline>  b: 0123456789abcdef01234567'' =
     [(''67d2804ef38a8bfdf0172bce'', ''a'', 1), (''0123456789abcdef01234567'', ''a.b'', 2)] \<and>
   classify ''a: 67d2804ef38a8bfdf0172bce'' = LeafReference 0 ''a'' ''67d2804ef38a8bfdf0172bce''"
  by code_simp

text \<open>A reference of a concrete text, with its ancestors.\<close>

theorem stack_strictly_increasing_witness:
  "(''67d2804ef38a8bfdf0172bce'', ''a.d'', 4) \<in> set (parse_block_ids_from_text
       ''a:\<newline>  b:\<newline>    c:\<newline>  d: 67d2804ef38a8bfdf0172bce\<newline>e:'') \<and>
   (\<exists>indent name anc rest.
      classify (split_newline
         ''a:\<newline>  b:\<newline>    c:\<newline>  d: 67d2804ef38a8bfdf0172bce\<newline>e:'' ! (4 - 1))
        = LeafReference indent name ''67d2804ef38a8bfdf0172bce'' \<and>
      fst (parse_lines (take (4 - 1) (split_newline
         ''a:\<newline>  b:\<newline>    c:\<newline>  d: 67d2804ef38a8bfdf0172bce\<newline>e:''))) = anc @ rest \<and>
      ''a.d'' = join_dot (map fst anc @ [name]) \<and>
      (\<forall>e \<in> set anc. snd e < indent))"
proof -
  have m: "(''67d2804ef38a8bfdf0172bce'', ''a.d'', 4) \<in> set (parse_block_ids_from_text
       ''a:\<newline>  b:\<newline>    c:\<newline>  d: 67d2804ef38a8bfdf0172bce\<newline>e:'')"
    by code_simp
  from stack_strictly_increasing [of 3
      "''a:\<newline>  b:\<newline>    c:\<newline>  d: 67d2804ef38a8bfdf0172bce\<newline>e:''"
      "''67d2804ef38a8bfdf0172bce''" "''a.d''" 4] m
  show ?thesis by blast
qed

lemma list_all_takeWhile: "list_all P (takeWhile P xs)"
  by (induction xs) auto

lemma key_head_decomp:
  assumes "key_head line = Some (g1, g2, r3)"
  shows "line = g1 @ g2 @ '':'' @ r3 \<and> list_all is_space g1 \<and> g2 \<noteq> [] \<and>
         key_start (hd g2) \<and> list_all key_char g2"
proof -
  from assms obtain c r where r1: "dropWhile is_space line = c # r" and c: "key_start c"
    and g1: "g1 = takeWhile is_space line"
    and g2: "g2 = takeWhile key_char (c # r)"
    and r2: "dropWhile key_char (c # r) = CHR '':'' # r3"
    by (auto simp: key_head_def Let_def split: list.splits if_splits)
  have "line = takeWhile is_space line @ dropWhile is_space line" by simp
  also have "dropWhile is_space line = takeWhile key_char (c # r) @ dropWhile key_char (c # r)"
    unfolding r1 by (simp only: takeWhile_dropWhile_id)
  finally have "line = g1 @ g2 @ '':'' @ r3"
    unfolding g1 g2 r2 by simp
  moreover from c have "g2 = c # takeWhile key_char r"
    unfolding g2 by (simp add: key_char_def)
  ultimately show ?thesis
    using c g1 g2 by (simp add: list_all_takeWhile key_char_def del: takeWhile.simps)
qed

lemma block_id_pattern_decomp:
  assumes "block_id_pattern line = Some (g1, g2, g3)"
  shows "\<exists>ws rest. line = g1 @ g2 @ '':'' @ ws @ g3 @ rest \<and> list_all is_space g1 \<and>
           g2 \<noteq> [] \<and> key_start (hd g2) \<and> list_all key_char g2 \<and> list_all is_space ws \<and>
           length g3 = 24 \<and> list_all is_hex g3 \<and> comment_tail rest"
proof -
  from assms obtain r3 where kh: "key_head line = Some (g1, g2, r3)"
    and g3: "g3 = take 24 (dropWhile is_space r3)"
    and len: "length g3 = 24" and hex: "list_all is_hex g3"
    and ct: "comment_tail (drop 24 (dropWhile is_space r3))"
    by (auto simp: block_id_pattern_def Let_def split: option.splits prod.splits if_splits)
  have "r3 = takeWhile is_space r3 @ g3 @ drop 24 (dropWhile is_space r3)"
    unfolding g3 by simp
  with key_head_decomp [OF kh] len hex ct list_all_takeWhile [of is_space r3]
  show ?thesis by metis
qed

lemma classify_leaf_pattern:
  "classify line = LeafReference indent name bid \<Longrightarrow>
     \<exists>g1. block_id_pattern (rstrip line) = Some (g1, name, bid) \<and> indent = length g1"
  by (auto simp: classify_def Let_def split: if_splits option.splits prod.splits)

text \<open>
  Claim C8: a line makes the parser emit a reference only if, stripped on the right, it
  is whitespace, a key, a colon, whitespace, exactly 24 hexadecimal digits and then only
  whitespace and an optional comment; so a line whose value is not exactly 24 hexadecimal
  digits emits nothing. The line \<^verbatim>\<open>foo: 123\<close> takes the last branch of the loop body
  and leaves the stack and the result as they are. The loop body has no failing
  operation: it is a total function of the state and the line.
\<close>

theorem short_identifier_unrecognized:
  "(snd (parse_line st (n, line)) \<noteq> snd st \<longrightarrow>
      (\<exists>g1 g2 ws g3 rest.
          rstrip line = g1 @ g2 @ '':'' @ ws @ g3 @ rest \<and>
          list_all is_space g1 \<and> g2 \<noteq> [] \<and> key_start (hd g2) \<and> list_all key_char g2 \<and>
          list_all is_space ws \<and> length g3 = 24 \<and> list_all is_hex g3 \<and> comment_tail rest \<and>
          classify line = LeafReference (length g1) g2 g3)) \<and>
   classify ''foo: 123'' = Unrecognized \<and>
   parse_line st (n, ''foo: 123'') = st"
proof (intro conjI impI)
  assume "snd (parse_line st (n, line)) \<noteq> snd st"
  then obtain indent name bid where c: "classify line = LeafReference indent name bid"
    by (cases "classify line") (auto simp: parse_line_refs)
  from classify_leaf_pattern [OF c] obtain g1 where
    p: "block_id_pattern (rstrip line) = Some (g1, name, bid)" and i: "indent = length g1"
    by blast
  from block_id_pattern_decomp [OF p] c i
  show "\<exists>g1 g2 ws g3 rest.
          rstrip line = g1 @ g2 @ '':'' @ ws @ g3 @ rest \<and>
          list_all is_space g1 \<and> g2 \<noteq> [] \<and> key_start (hd g2) \<and> list_all key_char g2 \<and>
          list_all is_space ws \<and> length g3 = 24 \<and> list_all is_hex g3 \<and> comment_tail rest \<and>
          classify line = LeafReference (length g1) g2 g3"
    by blast
next
  show u: "classify ''foo: 123'' = Unrecognized"
    by code_simp
  show "parse_line st (n, ''foo: 123'') = st"
    by (simp add: parse_line_classify u)
qed

text \<open>A line that emits a reference, and the line \<^verbatim>\<open>foo: 123\<close> on a stack with one entry.\<close>

theorem short_identifier_unrecognized_witness:
  "snd (parse_line ([], []) (1, ''foo: 67d2804ef38a8bfdf0172bce # x'')) \<noteq> [] \<and>
   (\<exists>g1 g2 ws g3 rest.
      rstrip ''foo: 67d2804ef38a8bfdf0172bce # x'' = g1 @ g2 @ '':'' @ ws @ g3 @ rest \<and>
      length g3 = 24 \<and> list_all is_hex g3 \<and> comment_tail rest) \<and>
   parse_line ([(''p'', 0)], []) (1, ''foo: 123'') = ([(''p'', 0)], [])"
proof -
  have h: "snd (parse_line ([], []) (1, ''foo: 67d2804ef38a8bfdf0172bce # x'')) \<noteq> snd ([], [])"
    by code_simp
  from short_identifier_unrecognized [of "([], [])" 1 "''foo: 67d2804ef38a8bfdf0172bce # x''"] h
  have "\<exists>g1 g2 ws g3 rest.
      rstrip ''foo: 67d2804ef38a8bfdf0172bce # x'' = g1 @ g2 @ '':'' @ ws @ g3 @ rest \<and>
      length g3 = 24 \<and> list_all is_hex g3 \<and> comment_tail rest"
    by blast
  moreover have "parse_line ([(''p'', 0)], []) (1, ''foo: 123'') = ([(''p'', 0)], [])"
    using short_identifier_unrecognized [of "([(''p'', 0)], [])" 1 "''''"] by simp
  ultimately show ?thesis using h by simp
qed

text \<open>
  Claim C2, as the code has it: after a leaf-reference line the stack is the stack with all
  entries of indent at least the leaf's indent popped, followed by the leaf's own entry;
  the leaf is pushed. A leaf-reference line that follows it with a strictly larger indent
  therefore has the first leaf as the last ancestor of its path.
\<close>

theorem leaf_is_pushed:
  "classify line = LeafReference indent name bid \<Longrightarrow>
     fst (parse_line (st, refs) (n, line)) = pop_stack st indent @ [(name, indent)] \<and>
     (classify line' = LeafReference indent' name' bid' \<and> indent < indent' \<longrightarrow>
        snd (parse_line (parse_line (st, refs) (n, line)) (n', line')) =
          refs @ [(bid, join_dot (map fst (pop_stack st indent) @ [name]), n),
                  (bid', join_dot (map fst (pop_stack st indent) @ [name, name']), n')])"
  by (simp add: parse_line_classify)

theorem leaf_is_pushed_witness:
  "classify ''a: 67d2804ef38a8bfdf0172bce'' = LeafReference 0 ''a'' ''67d2804ef38a8bfdf0172bce'' \<and>
   classify ''  b: 0123456789abcdef01234567'' = LeafReference 2 ''b'' ''0123456789abcdef01234567'' \<and>
   fst (parse_line ([], []) (1, ''a: 67d2804ef38a8bfdf0172bce'')) = [(''a'', 0)] \<and>
   snd (parse_line (parse_line ([], []) (1, ''a: 67d2804ef38a8bfdf0172bce''))
          (2, ''  b: 0123456789abcdef01234567'')) =
     [(''67d2804ef38a8bfdf0172bce'', ''a'', 1), (''0123456789abcdef01234567'', ''a.b'', 2)]"
proof -
  have a: "classify ''a: 67d2804ef38a8bfdf0172bce'' = LeafReference 0 ''a'' ''67d2804ef38a8bfdf0172bce''"
    by code_simp
  have b: "classify ''  b: 0123456789abcdef01234567'' = LeafReference 2 ''b'' ''0123456789abcdef01234567''"
    by code_simp
  show ?thesis
    using a b leaf_is_pushed [OF a, of "[]" "[]" 1 "''  b: 0123456789abcdef01234567''" 2 "''b''"
        "''0123456789abcdef01234567''" 2]
    by simp
qed

text \<open>
  Claim C2 as stated fails: from the empty stack, the leaf-reference line
  \<^verbatim>\<open>a: 67d2804ef38a8bfdf0172bce\<close> leaves a stack that is not the popped stack.
\<close>

theorem leaf_not_pushed_counterexample:
  "classify ''a: 67d2804ef38a8bfdf0172bce'' = LeafReference 0 ''a'' ''67d2804ef38a8bfdf0172bce'' \<and>
   pop_stack [] 0 = [] \<and>
   fst (parse_line ([], []) (1, ''a: 67d2804ef38a8bfdf0172bce'')) \<noteq> pop_stack [] 0"
  by code_simp

section \<open>Properties of the validator\<close>

text \<open>A lookup in \<^verbatim>\<open>all_blocks\<close> finds the last block that was stored under the key.\<close>

lemma map_of_index_item:
  "map_of (index_item sc ab it) =
     (map_of ab)(get_default (item_id it) ''N/A'' \<mapsto>
        \<lparr>ie_scenario_id = get_default (scenario_id sc) ''N/A'',
         ie_scenario_name = get_default (scenario_name sc) ''N/A'',
         ie_block_name = get_default (item_name it) ''N/A''\<rparr>)"
  by (simp add: index_item_def update_conv')

lemma map_of_index_items:
  "map_of (foldl (index_item sc) ab its) k =
     (case List.find (\<lambda>it. get_default (item_id it) ''N/A'' = k) (rev its) of
        Some it \<Rightarrow>
          Some \<lparr>ie_scenario_id = get_default (scenario_id sc) ''N/A'',
                ie_scenario_name = get_default (scenario_name sc) ''N/A'',
                ie_block_name = get_default (item_name it) ''N/A''\<rparr>
      | None \<Rightarrow> map_of ab k)"
proof (induction its rule: rev_induct)
  case Nil
  then show ?case by simp
next
  case (snoc it its)
  then show ?case by (simp add: map_of_index_item)
qed

lemma index_scenario_lookup:
  "map_of (index_scenario ab sc) k =
     (case List.find (\<lambda>it. get_default (item_id it) ''N/A'' = k)
             (rev (get_default (scenario_items sc) [])) of
        Some it \<Rightarrow>
          Some \<lparr>ie_scenario_id = get_default (scenario_id sc) ''N/A'',
                ie_scenario_name = get_default (scenario_name sc) ''N/A'',
                ie_block_name = get_default (item_name it) ''N/A''\<rparr>
      | None \<Rightarrow> map_of ab k)"
  by (simp add: index_scenario_def map_of_index_items)

lemma find_SomeD: "List.find P xs = Some x \<Longrightarrow> P x \<and> x \<in> set xs"
  by (induction xs) (auto split: if_splits)

lemma map_of_all_blocks_Some:
  "map_of (foldl index_scenario ab scs) k = Some e \<Longrightarrow>
     map_of ab k = Some e \<or>
     (\<exists>sc \<in> set scs. \<exists>it \<in> set (get_default (scenario_items sc) []).
        get_default (item_id it) ''N/A'' = k \<and>
        e = \<lparr>ie_scenario_id = get_default (scenario_id sc) ''N/A'',
              ie_scenario_name = get_default (scenario_name sc) ''N/A'',
              ie_block_name = get_default (item_name it) ''N/A''\<rparr>)"
proof (induction scs arbitrary: e rule: rev_induct)
  case Nil
  then show ?case by simp
next
  case (snoc sc scs)
  let ?its = "get_default (scenario_items sc) []"
  show ?case
  proof (cases "List.find (\<lambda>it. get_default (item_id it) ''N/A'' = k) (rev ?its)")
    case None
    with snoc.prems have "map_of (foldl index_scenario ab scs) k = Some e"
      by (simp add: index_scenario_lookup)
    from snoc.IH [OF this] show ?thesis by auto
  next
    case (Some it)
    then have "it \<in> set ?its" and "get_default (item_id it) ''N/A'' = k"
      by (auto dest: find_SomeD)
    moreover from Some snoc.prems
    have "e = \<lparr>ie_scenario_id = get_default (scenario_id sc) ''N/A'',
              ie_scenario_name = get_default (scenario_name sc) ''N/A'',
              ie_block_name = get_default (item_name it) ''N/A''\<rparr>"
      by (simp add: index_scenario_lookup)
    ultimately show ?thesis by auto
  qed
qed

lemma map_of_all_blocks_None:
  "map_of (foldl index_scenario ab scs) k = None \<longleftrightarrow>
     map_of ab k = None \<and>
     (\<forall>sc \<in> set scs. \<forall>it \<in> set (get_default (scenario_items sc) []).
        get_default (item_id it) ''N/A'' \<noteq> k)"
proof (induction scs rule: rev_induct)
  case Nil
  then show ?case by simp
next
  case (snoc sc scs)
  let ?its = "get_default (scenario_items sc) []"
  show ?case
  proof (cases "List.find (\<lambda>it. get_default (item_id it) ''N/A'' = k) (rev ?its)")
    case None
    then have "\<forall>it \<in> set ?its. get_default (item_id it) ''N/A'' \<noteq> k"
      by (auto simp: find_None_iff)
    with None snoc.IH show ?thesis
      by (simp add: index_scenario_lookup)
  next
    case (Some it)
    then have "it \<in> set ?its" and "get_default (item_id it) ''N/A'' = k"
      by (auto dest: find_SomeD)
    with Some show ?thesis
      by (auto simp: index_scenario_lookup)
  qed
qed


text \<open>
  The validator on the code. \<open>validate_block_ids\<close> returns one result for each input triple,
  in the order of the input and with the identifier, the path and the line number of the
  triple, so that a repeated identifier gives repeated results. The result is valid
  exactly when the identifier is a key of the index \<^verbatim>\<open>all_blocks\<close>, in which a block without
  the field \<^verbatim>\<open>id\<close> stands under the key \<^verbatim>\<open>'N/A'\<close>; a valid result carries the scenario and
  block names of a block under that key, and an invalid result has no resolved field.
\<close>

theorem validate_block_ids_total:
  "length (validate_block_ids refs scs env) = length refs \<and>
   (i < length refs \<longrightarrow>
      (let r = validate_block_ids refs scs env ! i; bid = fst (refs ! i)
       in vr_block_id r = bid \<and> vr_path r = fst (snd (refs ! i)) \<and>
          vr_line_number r = snd (snd (refs ! i)) \<and>
          (vr_valid r \<longleftrightarrow>
             (\<exists>sc \<in> set scs. \<exists>it \<in> set (get_default (scenario_items sc) []).
                get_default (item_id it) ''N/A'' = bid)) \<and>
          (vr_valid r \<longrightarrow>
             (\<exists>sc \<in> set scs. \<exists>it \<in> set (get_default (scenario_items sc) []).
                get_default (item_id it) ''N/A'' = bid \<and>
                vr_scenario_id r = Some (get_default (scenario_id sc) ''N/A'') \<and>
                vr_scenario_name r = Some (get_default (scenario_name sc) ''N/A'') \<and>
                vr_block_name r = Some (get_default (item_name it) ''N/A''))) \<and>
          (\<not> vr_valid r \<longrightarrow>
             vr_scenario_id r = None \<and> vr_scenario_name r = None \<and> vr_block_name r = None)))"
proof (intro conjI impI)
  show "length (validate_block_ids refs scs env) = length refs"
    by (simp add: validate_block_ids_def)
next
  assume i: "i < length refs"
  obtain bid path ln where ref: "refs ! i = (bid, path, ln)"
    by (cases "refs ! i") auto
  from i have r: "validate_block_ids refs scs env ! i
                  = validate_one (foldl index_scenario [] scs) (bid, path, ln)"
    by (simp add: validate_block_ids_def all_blocks_of_def ref)
  show "let r = validate_block_ids refs scs env ! i; bid = fst (refs ! i)
       in vr_block_id r = bid \<and> vr_path r = fst (snd (refs ! i)) \<and>
          vr_line_number r = snd (snd (refs ! i)) \<and>
          (vr_valid r \<longleftrightarrow>
             (\<exists>sc \<in> set scs. \<exists>it \<in> set (get_default (scenario_items sc) []).
                get_default (item_id it) ''N/A'' = bid)) \<and>
          (vr_valid r \<longrightarrow>
             (\<exists>sc \<in> set scs. \<exists>it \<in> set (get_default (scenario_items sc) []).
                get_default (item_id it) ''N/A'' = bid \<and>
                vr_scenario_id r = Some (get_default (scenario_id sc) ''N/A'') \<and>
                vr_scenario_name r = Some (get_default (scenario_name sc) ''N/A'') \<and>
                vr_block_name r = Some (get_default (item_name it) ''N/A''))) \<and>
          (\<not> vr_valid r \<longrightarrow>
             vr_scenario_id r = None \<and> vr_scenario_name r = None \<and> vr_block_name r = None)"
  proof (cases "map_of (foldl index_scenario [] scs) bid")
    case None
    with map_of_all_blocks_None [of "[]" scs bid] show ?thesis
      unfolding r ref Let_def by (simp add: validate_one_def)
  next
    case (Some e)
    from map_of_all_blocks_Some [OF Some]
    obtain sc it where "sc \<in> set scs" "it \<in> set (get_default (scenario_items sc) [])"
      "get_default (item_id it) ''N/A'' = bid"
      "e = \<lparr>ie_scenario_id = get_default (scenario_id sc) ''N/A'',
              ie_scenario_name = get_default (scenario_name sc) ''N/A'',
              ie_block_name = get_default (item_name it) ''N/A''\<rparr>"
      by auto
    with Some show ?thesis
      unfolding r ref Let_def by (auto simp: validate_one_def)
  qed
qed

text \<open>The second of two references to one identifier, against a snapshot that holds it.\<close>

theorem validate_block_ids_total_witness:
  "(1::nat) < length example_refs \<and>
   (let r = validate_block_ids example_refs example_snapshot ''dev'' ! 1 in
      vr_block_id r = ''67d2804ef38a8bfdf0172bce'' \<and> vr_path r = ''c'' \<and> vr_line_number r = 5 \<and>
      vr_valid r) \<and>
   length (validate_block_ids example_refs example_snapshot ''dev'') = 3"
proof -
  have h: "(1::nat) < length example_refs"
    by (simp add: example_refs_def)
  have p: "\<exists>sc \<in> set example_snapshot. \<exists>it \<in> set (get_default (scenario_items sc) []).
             get_default (item_id it) ''N/A'' = fst (example_refs ! 1)"
    by (simp add: get_default_def example_refs_def example_snapshot_def)
  have r: "example_refs ! Suc 0 = (''67d2804ef38a8bfdf0172bce'', ''c'', 5)" "length example_refs = 3"
    by (simp_all add: example_refs_def)
  from validate_block_ids_total [of example_refs example_snapshot "''dev''" 1] h p
  show ?thesis
    by (simp add: Let_def r)
qed

text \<open>A block with the identifier, anywhere in the snapshot, makes the lookup succeed.\<close>

lemma search_blocks_by_id_finds:
  "sc \<in> set scs \<Longrightarrow> it \<in> set (get_default (scenario_items sc) []) \<Longrightarrow>
     item_id it = Some bid \<Longrightarrow> search_blocks_by_id scs bid \<noteq> None"
proof (induction scs)
  case Nil
  then show ?case by simp
next
  case (Cons x scs)
  show ?case
  proof (cases "List.find (\<lambda>it. item_id it = Some bid) (get_default (scenario_items x) [])")
    case (Some y)
    then show ?thesis by simp
  next
    case None
    then have "\<forall>i \<in> set (get_default (scenario_items x) []). item_id i \<noteq> Some bid"
      by (simp add: find_None_iff)
    with Cons.prems have "sc \<noteq> x" by auto
    with Cons None show ?thesis by simp
  qed
qed

text \<open>A successful lookup returns a block of the snapshot that has the identifier.\<close>

lemma search_blocks_by_id_SomeD:
  "search_blocks_by_id scs bid = Some r \<Longrightarrow>
     \<exists>sc \<in> set scs. \<exists>it \<in> set (get_default (scenario_items sc) []). item_id it = Some bid"
proof (induction scs)
  case Nil
  then show ?case by simp
next
  case (Cons x scs)
  show ?case
  proof (cases "List.find (\<lambda>it. item_id it = Some bid) (get_default (scenario_items x) [])")
    case (Some y)
    then have "y \<in> set (get_default (scenario_items x) [])" "item_id y = Some bid"
      by (auto dest: find_SomeD)
    then show ?thesis by auto
  next
    case None
    with Cons show ?thesis by simp
  qed
qed

text \<open>
  For every identifier other than \<^verbatim>\<open>'N/A'\<close> the validator and \<open>search_blocks_by_id\<close> agree: the
  result is valid exactly when some block of the snapshot has the identifier.
\<close>

lemma validate_agrees_with_lookup:
  assumes "i < length refs" and "fst (refs ! i) \<noteq> ''N/A''"
  shows "vr_valid (validate_block_ids refs scs env ! i) \<longleftrightarrow>
           search_blocks_by_id scs (fst (refs ! i)) \<noteq> None"
proof -
  have d: "get_default (item_id it) ''N/A'' = fst (refs ! i) \<longleftrightarrow> item_id it = Some (fst (refs ! i))"
    for it
    using assms(2) by (cases "item_id it") (auto simp: get_default_def)
  from validate_block_ids_total [of refs scs env i] assms(1)
  have "vr_valid (validate_block_ids refs scs env ! i) \<longleftrightarrow>
          (\<exists>sc \<in> set scs. \<exists>it \<in> set (get_default (scenario_items sc) []).
             get_default (item_id it) ''N/A'' = fst (refs ! i))"
    by (simp add: Let_def)
  also have "\<dots> \<longleftrightarrow> (\<exists>sc \<in> set scs. \<exists>it \<in> set (get_default (scenario_items sc) []).
             item_id it = Some (fst (refs ! i)))"
    unfolding d ..
  also have "\<dots> \<longleftrightarrow> search_blocks_by_id scs (fst (refs ! i)) \<noteq> None"
  proof
    assume "\<exists>sc \<in> set scs. \<exists>it \<in> set (get_default (scenario_items sc) []).
             item_id it = Some (fst (refs ! i))"
    then obtain sc it where "sc \<in> set scs" "it \<in> set (get_default (scenario_items sc) [])"
      "item_id it = Some (fst (refs ! i))"
      by blast
    then show "search_blocks_by_id scs (fst (refs ! i)) \<noteq> None"
      by (rule search_blocks_by_id_finds)
  next
    assume "search_blocks_by_id scs (fst (refs ! i)) \<noteq> None"
    then obtain r where "search_blocks_by_id scs (fst (refs ! i)) = Some r"
      by (cases "search_blocks_by_id scs (fst (refs ! i))") simp_all
    then show "\<exists>sc \<in> set scs. \<exists>it \<in> set (get_default (scenario_items sc) []).
             item_id it = Some (fst (refs ! i))"
      by (rule search_blocks_by_id_SomeD)
  qed
  finally show ?thesis .
qed


text \<open>
  Claim C5 on a snapshot in which two blocks carry one identifier: \<open>search_blocks_by_id\<close>
  returns at the first of them, while the index of \<open>validate_block_ids\<close>, filled by
  assignments to the same key, keeps the last of them. Neither raises.
\<close>

theorem duplicate_identifier_lookup:
  "search_blocks_by_id duplicate_snapshot ''67d2804ef38a8bfdf0172bce'' =
     Some \<lparr>bi_scenario_id = ''s1'', bi_scenario_name = ''S1'',
           bi_block_id = ''67d2804ef38a8bfdf0172bce'', bi_block_name = ''first'', bi_env = None\<rparr> \<and>
   validate_block_ids [(''67d2804ef38a8bfdf0172bce'', ''a.b'', 2)] duplicate_snapshot ''dev'' =
     [\<lparr>vr_block_id = ''67d2804ef38a8bfdf0172bce'', vr_path = ''a.b'', vr_line_number = 2,
       vr_valid = True, vr_scenario_id = Some ''s1'', vr_scenario_name = Some ''S1'',
       vr_block_name = Some ''second''\<rparr>]"
  by code_simp

section \<open>Properties of the searches over the environments\<close>

text \<open>A loop that assigns one key per element of a list, as all three functions have it.\<close>

lemma keys_foldl_update:
  "fst ` set (foldl (\<lambda>res x. AList.update (fst x) (g x) res) acc xs) = fst ` set acc \<union> fst ` set xs"
  by (induction xs arbitrary: acc) (auto simp: dom_update)

lemma distinct_foldl_update:
  "distinct (map fst acc) \<Longrightarrow>
     distinct (map fst (foldl (\<lambda>res x. AList.update (fst x) (g x) res) acc xs))"
  by (induction xs arbitrary: acc) (auto simp: distinct_update)

lemma map_of_foldl_update_notin:
  "k \<notin> fst ` set xs \<Longrightarrow>
     map_of (foldl (\<lambda>res x. AList.update (fst x) (g x) res) acc xs) k = map_of acc k"
  by (induction xs arbitrary: acc) (auto simp: update_conv')

lemma map_of_foldl_update:
  "distinct (map fst xs) \<Longrightarrow> (k, v) \<in> set xs \<Longrightarrow>
     map_of (foldl (\<lambda>res x. AList.update (fst x) (g x) res) acc xs) k = Some (g (k, v))"
proof (induction xs arbitrary: acc)
  case Nil
  then show ?case by simp
next
  case (Cons x xs)
  show ?case
  proof (cases "x = (k, v)")
    case True
    with Cons.prems have "k \<notin> fst ` set xs" by auto
    with True show ?thesis
      by (simp add: map_of_foldl_update_notin update_conv')
  next
    case False
    with Cons show ?thesis by auto
  qed
qed

lemma loaded_Some: "loaded (Some scs) \<longleftrightarrow> scs \<noteq> []"
  by (cases scs) simp_all

lemma match_in_env_Nil [simp]: "match_in_env [] sc_name block_name = None"
  by (simp add: match_in_env_def)

lemma search_blocks_Nil [simp]: "search_blocks [] search_term = []"
  by (simp add: search_blocks_def)

lemma find_matching_step:
  "(case x of (env_name, scenarios) \<Rightarrow>
      AList.update env_name
        (case scenarios of
           None \<Rightarrow> None
         | Some scs \<Rightarrow> if loaded scenarios then match_in_env scs sc_name block_name else None)
        res)
   = AList.update (fst x) (by_collection_and_item_name (snd x) sc_name block_name) res"
  by (cases x) (auto simp: by_collection_and_item_name_def loaded_Some split: option.splits)

lemma find_matching_fold:
  "find_matching_blocks_in_other_envs envs source_env sc_name block_name =
     foldl (\<lambda>res x. AList.update (fst x)
                      (by_collection_and_item_name (snd x) sc_name block_name) res) [] envs"
  unfolding find_matching_blocks_in_other_envs_def
  by (rule foldl_cong) (simp_all add: find_matching_step)

lemma search_blocks_multi_env_step:
  "(case x of (env_name, scenarios) \<Rightarrow>
      AList.update env_name
        (case scenarios of
           None \<Rightarrow> []
         | Some scs \<Rightarrow> if loaded scenarios then search_blocks scs search_term else [])
        res)
   = AList.update (fst x)
       (case snd x of None \<Rightarrow> [] | Some scs \<Rightarrow> search_blocks scs search_term) res"
  by (cases x) (auto simp: loaded_Some split: option.splits)

lemma search_blocks_multi_env_fold:
  "search_blocks_multi_env envs search_term =
     foldl (\<lambda>res x. AList.update (fst x)
                      (case snd x of None \<Rightarrow> [] | Some scs \<Rightarrow> search_blocks scs search_term) res)
       [] envs"
  unfolding search_blocks_multi_env_def
  by (rule foldl_cong) (simp_all add: search_blocks_multi_env_step)


lemma id_scan_step_eq:
  "id_scan_step bid (fb, src) x =
     (AList.update (fst x)
        (case by_identifier (snd x) bid of
           None \<Rightarrow> None
         | Some bi \<Rightarrow> if src = None then Some (bi\<lparr>bi_env := Some (fst x)\<rparr>) else Some bi)
        fb,
      case src of
        Some y \<Rightarrow> Some y
      | None \<Rightarrow> map_option (\<lambda>bi. bi\<lparr>bi_env := Some (fst x)\<rparr>) (by_identifier (snd x) bid))"
  by (cases x)
    (auto simp: id_scan_step_def by_identifier_def Let_def loaded_Some split: option.splits)

lemma scan_keys:
  "fst ` set (fst (foldl (id_scan_step bid) (fb, src) envs)) = fst ` set fb \<union> fst ` set envs"
  by (induction envs arbitrary: fb src) (auto simp: id_scan_step_eq dom_update)

lemma scan_distinct:
  "distinct (map fst fb) \<Longrightarrow> distinct (map fst (fst (foldl (id_scan_step bid) (fb, src) envs)))"
  by (induction envs arbitrary: fb src) (auto simp: id_scan_step_eq distinct_update)

lemma scan_source_Some:
  "snd (foldl (id_scan_step bid) (fb, Some y) envs) = Some y"
  by (induction envs arbitrary: fb) (auto simp: id_scan_step_eq)

lemma scan_source:
  "snd (foldl (id_scan_step bid) (fb, None) envs) =
     (case List.find (\<lambda>x. by_identifier (snd x) bid \<noteq> None) envs of
        None \<Rightarrow> None
      | Some x \<Rightarrow> map_option (\<lambda>bi. bi\<lparr>bi_env := Some (fst x)\<rparr>) (by_identifier (snd x) bid))"
proof (induction envs arbitrary: fb)
  case Nil
  then show ?case by simp
next
  case (Cons x envs)
  show ?case
  proof (cases "by_identifier (snd x) bid")
    case None
    with Cons show ?thesis by (simp add: id_scan_step_eq)
  next
    case (Some bi)
    then show ?thesis by (simp add: id_scan_step_eq scan_source_Some)
  qed
qed

lemma scan_lookup_notin:
  "e \<notin> fst ` set envs \<Longrightarrow>
     map_of (fst (foldl (id_scan_step bid) (fb, src) envs)) e = map_of fb e"
  by (induction envs arbitrary: fb src) (auto simp: id_scan_step_eq update_conv')

lemma scan_lookup:
  "distinct (map fst envs) \<Longrightarrow> (e, s) \<in> set envs \<Longrightarrow>
     map_of (fst (foldl (id_scan_step bid) (fb, src) envs)) e =
       Some (case by_identifier s bid of
               None \<Rightarrow> None
             | Some bi \<Rightarrow>
                 if src = None \<and>
                    List.find (\<lambda>x. by_identifier (snd x) bid \<noteq> None) envs = Some (e, s)
                 then Some (bi\<lparr>bi_env := Some e\<rparr>) else Some bi)"
proof (induction envs arbitrary: fb src)
  case Nil
  then show ?case by simp
next
  case (Cons x envs)
  show ?case
  proof (cases "x = (e, s)")
    case True
    with Cons.prems have "e \<notin> fst ` set envs" by auto
    with True show ?thesis
      by (auto simp: id_scan_step_eq scan_lookup_notin update_conv' split: option.splits)
  next
    case False
    with Cons.prems have m: "(e, s) \<in> set envs" and d: "distinct (map fst envs)" by auto
    show ?thesis
    proof (cases "by_identifier (snd x) bid")
      case None
      with False Cons.IH [OF d m] show ?thesis
        by (simp add: id_scan_step_eq split: option.splits)
    next
      case (Some bi)
      with False Cons.IH [OF d m] show ?thesis
        by (simp add: id_scan_step_eq split: option.splits)
    qed
  qed
qed


lemma merge_step_Inr:
  assumes "map_of M k = Some mv" and "map_of fb k = Some fv"
  shows "merge_step M (Inr fb) k =
           Inr (case mv of
                  None \<Rightarrow> fb
                | Some m \<Rightarrow> (case fv of None \<Rightarrow> AList.update k (Some m) fb | Some f \<Rightarrow> fb))"
  using assms by (simp add: merge_step_def split: option.splits)

lemma in_keys_map_of: "k \<in> fst ` set al \<Longrightarrow> \<exists>v. map_of al k = Some v"
  by (cases "map_of al k") (auto simp: map_of_eq_None_iff)

lemma merge_fold:
  assumes "set ks \<subseteq> fst ` set M" and "set ks \<subseteq> fst ` set fb" and "distinct ks"
  shows "\<exists>fb'. foldl (merge_step M) (Inr fb) ks = Inr fb' \<and>
           fst ` set fb' = fst ` set fb \<and>
           (distinct (map fst fb) \<longrightarrow> distinct (map fst fb')) \<and>
           (\<forall>e. map_of fb' e =
                  (if e \<in> set ks \<and> map_of fb e = Some None
                   then (case map_of M e of Some (Some m) \<Rightarrow> Some (Some m) | _ \<Rightarrow> Some None)
                   else map_of fb e))"
  using assms
proof (induction ks arbitrary: fb)
  case Nil
  then show ?case by simp
next
  case (Cons k ks)
  from Cons.prems obtain mv fv where mv: "map_of M k = Some mv" and fv: "map_of fb k = Some fv"
    using in_keys_map_of [of k M] in_keys_map_of [of k fb] by auto
  define fb1 where "fb1 = (case mv of
                  None \<Rightarrow> fb
                | Some m \<Rightarrow> (case fv of None \<Rightarrow> AList.update k (Some m) fb | Some f \<Rightarrow> fb))"
  have step: "merge_step M (Inr fb) k = Inr fb1"
    unfolding fb1_def by (rule merge_step_Inr [OF mv fv])
  from Cons.prems have kin: "k \<in> fst ` set fb" by simp
  then have keys1: "fst ` set fb1 = fst ` set fb"
    unfolding fb1_def by (auto simp: dom_update split: option.splits)
  have dist1: "distinct (map fst fb) \<longrightarrow> distinct (map fst fb1)"
    unfolding fb1_def by (auto simp: distinct_update split: option.splits)
  have look1: "map_of fb1 e =
      (if e = k \<and> map_of fb e = Some None
       then (case map_of M e of Some (Some m) \<Rightarrow> Some (Some m) | _ \<Rightarrow> Some None)
       else map_of fb e)" for e
    unfolding fb1_def using mv fv by (auto simp: update_conv' split: option.splits)
  from Cons.prems keys1 have "set ks \<subseteq> fst ` set M" "set ks \<subseteq> fst ` set fb1" "distinct ks"
    by auto
  from Cons.IH [OF this] obtain fb' where
    f: "foldl (merge_step M) (Inr fb1) ks = Inr fb'" and
    k': "fst ` set fb' = fst ` set fb1" and
    d': "distinct (map fst fb1) \<longrightarrow> distinct (map fst fb')" and
    l': "\<And>e. map_of fb' e =
                  (if e \<in> set ks \<and> map_of fb1 e = Some None
                   then (case map_of M e of Some (Some m) \<Rightarrow> Some (Some m) | _ \<Rightarrow> Some None)
                   else map_of fb1 e)"
    by blast
  from Cons.prems have knot: "k \<notin> set ks" by simp
  have "map_of fb' e =
                  (if e \<in> set (k # ks) \<and> map_of fb e = Some None
                   then (case map_of M e of Some (Some m) \<Rightarrow> Some (Some m) | _ \<Rightarrow> Some None)
                   else map_of fb e)" for e
    unfolding l' [of e] look1 [of e] using knot by auto
  with f k' d' keys1 dist1 step show ?case
    by auto
qed


lemma find_matching_keys:
  "fst ` set (find_matching_blocks_in_other_envs envs source_env sc_name block_name) = fst ` set envs"
  by (simp add: find_matching_fold keys_foldl_update)

lemma find_matching_lookup:
  "distinct (map fst envs) \<Longrightarrow> (e, s) \<in> set envs \<Longrightarrow>
     map_of (find_matching_blocks_in_other_envs envs source_env sc_name block_name) e =
       Some (by_collection_and_item_name s sc_name block_name)"
  unfolding find_matching_fold
  using map_of_foldl_update
    [of envs e s "\<lambda>x. by_collection_and_item_name (snd x) sc_name block_name" "[]"]
  by simp

lemma search_result_no_source:
  "List.find (\<lambda>x. by_identifier (snd x) bid \<noteq> None) envs = None \<Longrightarrow>
     search_by_block_id_multi_env envs bid = Inr (fst (foldl (id_scan_step bid) ([], None) envs))"
  by (simp add: search_by_block_id_multi_env_def Let_def scan_source)

lemma search_result_source:
  assumes f: "List.find (\<lambda>x. by_identifier (snd x) bid \<noteq> None) envs = Some x"
    and b: "by_identifier (snd x) bid = Some src"
  shows "\<exists>res. search_by_block_id_multi_env envs bid = Inr res \<and>
           fst ` set res = fst ` set envs \<and>
           (\<forall>e. map_of res e =
              (if map_of (fst (foldl (id_scan_step bid) ([], None) envs)) e = Some None
               then (case map_of (find_matching_blocks_in_other_envs envs (fst x)
                                    (bi_scenario_name src) (bi_block_name src)) e of
                       Some (Some m) \<Rightarrow> Some (Some m)
                     | _ \<Rightarrow> Some None)
               else map_of (fst (foldl (id_scan_step bid) ([], None) envs)) e))"
proof -
  define FB where "FB = fst (foldl (id_scan_step bid) ([], None) envs)"
  define M where "M = find_matching_blocks_in_other_envs envs (fst x)
                        (bi_scenario_name src) (bi_block_name src)"
  have src: "snd (foldl (id_scan_step bid) ([], None) envs) = Some (src\<lparr>bi_env := Some (fst x)\<rparr>)"
    unfolding scan_source f using b by simp
  have eq: "search_by_block_id_multi_env envs bid = foldl (merge_step M) (Inr FB) (map fst M)"
    by (simp add: search_by_block_id_multi_env_def Let_def src FB_def M_def)
  have kM: "fst ` set M = fst ` set envs"
    unfolding M_def by (rule find_matching_keys)
  have kF: "fst ` set FB = fst ` set envs"
    unfolding FB_def by (simp add: scan_keys)
  have dM: "distinct (map fst M)"
    unfolding M_def find_matching_fold by (rule distinct_foldl_update) simp
  from kM kF have "set (map fst M) \<subseteq> fst ` set M" "set (map fst M) \<subseteq> fst ` set FB"
    by auto
  from merge_fold [OF this dM] obtain res where
    r: "foldl (merge_step M) (Inr FB) (map fst M) = Inr res" and
    k: "fst ` set res = fst ` set FB" and
    l: "\<And>e. map_of res e =
                  (if e \<in> set (map fst M) \<and> map_of FB e = Some None
                   then (case map_of M e of Some (Some m) \<Rightarrow> Some (Some m) | _ \<Rightarrow> Some None)
                   else map_of FB e)"
    by blast
  have "map_of FB e = Some None \<Longrightarrow> e \<in> set (map fst M)" for e
    using kM kF by (metis image_set map_of_eq_None_iff option.distinct(1))
  with l have "map_of res e =
                  (if map_of FB e = Some None
                   then (case map_of M e of Some (Some m) \<Rightarrow> Some (Some m) | _ \<Rightarrow> Some None)
                   else map_of FB e)" for e
    by auto
  with r k kF eq show ?thesis
    unfolding FB_def M_def by auto
qed

text \<open>
  Claim C10: the keys of the dictionary that each of the three multi-environment
  functions returns are exactly the keys of the dictionary of environments; an
  environment without a match has a key all the same, with the value \<open>None\<close> or the empty
  list. \<open>search_by_block_id_multi_env\<close> returns such a dictionary and never raises.
\<close>

theorem results_total_over_environments:
  "fst ` set (find_matching_blocks_in_other_envs envs source_env sc_name block_name) = fst ` set envs \<and>
   fst ` set (search_blocks_multi_env envs search_term) = fst ` set envs \<and>
   (\<exists>res. search_by_block_id_multi_env envs block_id = Inr res \<and> fst ` set res = fst ` set envs)"
proof (intro conjI)
  show "fst ` set (find_matching_blocks_in_other_envs envs source_env sc_name block_name) = fst ` set envs"
    by (rule find_matching_keys)
  show "fst ` set (search_blocks_multi_env envs search_term) = fst ` set envs"
    by (simp add: search_blocks_multi_env_fold keys_foldl_update)
  show "\<exists>res. search_by_block_id_multi_env envs block_id = Inr res \<and> fst ` set res = fst ` set envs"
  proof (cases "List.find (\<lambda>x. by_identifier (snd x) block_id \<noteq> None) envs")
    case None
    then show ?thesis
      by (simp add: search_result_no_source scan_keys)
  next
    case (Some x)
    then have "by_identifier (snd x) block_id \<noteq> None"
      by (auto dest: find_SomeD)
    then obtain src where "by_identifier (snd x) block_id = Some src" by auto
    from search_result_source [OF Some this] show ?thesis by blast
  qed
qed

text \<open>Environments without a snapshot, and identifiers that no environment holds.\<close>

lemma not_loaded_by_identifier: "\<not> loaded s \<Longrightarrow> by_identifier s bid = None"
  by (cases s) (auto simp: by_identifier_def loaded_Some)

lemma not_loaded_by_collection:
  "\<not> loaded s \<Longrightarrow> by_collection_and_item_name s sc_name block_name = None"
  by (cases s) (auto simp: by_collection_and_item_name_def loaded_Some)

lemma scan_all_none:
  "\<forall>x \<in> set envs. by_identifier (snd x) bid = None \<Longrightarrow>
     map_of (fst (foldl (id_scan_step bid) (fb, src) envs)) e =
       (if e \<in> fst ` set envs then Some None else map_of fb e)"
  by (induction envs arbitrary: fb src) (auto simp: id_scan_step_eq update_conv')

lemma search_blocks_by_id_block_id:
  "search_blocks_by_id scs bid = Some bi \<Longrightarrow> bi_block_id bi = bid"
  by (induction scs) (auto split: option.splits)

lemma by_identifier_block_id: "by_identifier s bid = Some bi \<Longrightarrow> bi_block_id bi = bid"
  by (cases s) (auto simp: by_identifier_def dest: search_blocks_by_id_block_id)


lemma search_result_keys:
  "\<exists>res. search_by_block_id_multi_env envs block_id = Inr res \<and> fst ` set res = fst ` set envs"
proof (cases "List.find (\<lambda>x. by_identifier (snd x) block_id \<noteq> None) envs")
  case None
  then show ?thesis
    by (simp add: search_result_no_source scan_keys)
next
  case (Some x)
  then have "by_identifier (snd x) block_id \<noteq> None"
    by (auto dest: find_SomeD)
  then obtain src where "by_identifier (snd x) block_id = Some src" by auto
  from search_result_source [OF Some this] show ?thesis
    by (elim exE conjE) (intro exI conjI)
qed

lemma no_source_all_none:
  assumes a: "\<forall>x \<in> set envs. by_identifier (snd x) bid = None"
  shows "\<exists>res. search_by_block_id_multi_env envs bid = Inr res \<and>
         fst ` set res = fst ` set envs \<and> (\<forall>e \<in> fst ` set envs. map_of res e = Some None)"
proof -
  from a have "List.find (\<lambda>x. by_identifier (snd x) bid \<noteq> None) envs = None"
    by (auto simp: find_None_iff)
  then have r: "search_by_block_id_multi_env envs bid
             = Inr (fst (foldl (id_scan_step bid) ([], None) envs))"
    by (rule search_result_no_source)
  have k: "fst ` set (fst (foldl (id_scan_step bid) ([], None) envs)) = fst ` set envs"
    by (simp add: scan_keys)
  have l: "\<forall>e \<in> fst ` set envs. map_of (fst (foldl (id_scan_step bid) ([], None) envs)) e = Some None"
    using scan_all_none [OF a, of "[]" None] by simp
  show ?thesis
    unfolding r using k l by simp
qed


lemma search_result_lookup:
  assumes f: "List.find (\<lambda>x. by_identifier (snd x) bid \<noteq> None) envs = Some x"
    and b: "by_identifier (snd x) bid = Some src"
  shows "\<exists>res. search_by_block_id_multi_env envs bid = Inr res \<and>
           (\<forall>e. map_of res e =
              (if map_of (fst (foldl (id_scan_step bid) ([], None) envs)) e = Some None
               then (case map_of (find_matching_blocks_in_other_envs envs (fst x)
                                    (bi_scenario_name src) (bi_block_name src)) e of
                       Some (Some m) \<Rightarrow> Some (Some m)
                     | _ \<Rightarrow> Some None)
               else map_of (fst (foldl (id_scan_step bid) ([], None) envs)) e))"
  using search_result_source [OF f b] by (elim exE conjE) (intro exI conjI)

lemma not_loaded_result:
  assumes d: "distinct (map fst envs)" and m: "(e, s) \<in> set envs" and n: "\<not> loaded s"
  shows "\<exists>res. search_by_block_id_multi_env envs bid = Inr res \<and> map_of res e = Some None"
proof -
  have fb: "map_of (fst (foldl (id_scan_step bid) ([], None) envs)) e = Some None"
    using scan_lookup [OF d m, of bid "[]" None] not_loaded_by_identifier [OF n, of bid] by simp
  show ?thesis
  proof (cases "List.find (\<lambda>x. by_identifier (snd x) bid \<noteq> None) envs")
    case None
    with fb show ?thesis
      by (simp add: search_result_no_source)
  next
    case (Some x)
    then have "by_identifier (snd x) bid \<noteq> None"
      by (auto dest: find_SomeD)
    then obtain src where "by_identifier (snd x) bid = Some src" by auto
    from search_result_lookup [OF Some this] obtain res where
      r: "search_by_block_id_multi_env envs bid = Inr res" and
      l: "map_of res e =
              (if map_of (fst (foldl (id_scan_step bid) ([], None) envs)) e = Some None
               then (case map_of (find_matching_blocks_in_other_envs envs (fst x)
                                    (bi_scenario_name src) (bi_block_name src)) e of
                       Some (Some m) \<Rightarrow> Some (Some m)
                     | _ \<Rightarrow> Some None)
               else map_of (fst (foldl (id_scan_step bid) ([], None) envs)) e)"
      by blast
    have "map_of res e = Some None"
      unfolding l fb find_matching_lookup [OF d m] not_loaded_by_collection [OF n] by simp
    with r show ?thesis by simp
  qed
qed


text \<open>
  Claim C9: \<open>search_by_block_id_multi_env\<close> always returns a dictionary and never raises.
  When the identifier is found in no environment, every environment is mapped to \<open>None\<close>.
  An environment whose snapshot is absent or empty is mapped to \<open>None\<close>, by this function
  and by \<open>find_matching_blocks_in_other_envs\<close>, whatever the other environments hold.
\<close>

theorem unresolved_identifier_all_none:
  "(\<exists>res. search_by_block_id_multi_env envs bid = Inr res) \<and>
   ((\<forall>x \<in> set envs. by_identifier (snd x) bid = None) \<longrightarrow>
      (\<exists>res. search_by_block_id_multi_env envs bid = Inr res \<and>
         fst ` set res = fst ` set envs \<and> (\<forall>e \<in> fst ` set envs. map_of res e = Some None))) \<and>
   (distinct (map fst envs) \<and> (e, s) \<in> set envs \<and> \<not> loaded s \<longrightarrow>
      (\<exists>res. search_by_block_id_multi_env envs bid = Inr res \<and> map_of res e = Some None) \<and>
      map_of (find_matching_blocks_in_other_envs envs source_env sc_name block_name) e = Some None)"
proof (intro conjI impI)
  show "\<exists>res. search_by_block_id_multi_env envs bid = Inr res"
    using search_result_keys [of envs bid] by (elim exE conjE) (rule exI)
next
  assume "\<forall>x \<in> set envs. by_identifier (snd x) bid = None"
  then show "\<exists>res. search_by_block_id_multi_env envs bid = Inr res \<and>
         fst ` set res = fst ` set envs \<and> (\<forall>e \<in> fst ` set envs. map_of res e = Some None)"
    by (rule no_source_all_none)
next
  assume h: "distinct (map fst envs) \<and> (e, s) \<in> set envs \<and> \<not> loaded s"
  then have "distinct (map fst envs)" "(e, s) \<in> set envs" "\<not> loaded s"
    by simp_all
  then show "\<exists>res. search_by_block_id_multi_env envs bid = Inr res \<and> map_of res e = Some None"
    by (rule not_loaded_result)
next
  assume h: "distinct (map fst envs) \<and> (e, s) \<in> set envs \<and> \<not> loaded s"
  then have "distinct (map fst envs)" "(e, s) \<in> set envs"
    by simp_all
  then have "map_of (find_matching_blocks_in_other_envs envs source_env sc_name block_name) e
        = Some (by_collection_and_item_name s sc_name block_name)"
    by (rule find_matching_lookup)
  with h show "map_of (find_matching_blocks_in_other_envs envs source_env sc_name block_name) e = Some None"
    by (simp add: not_loaded_by_collection)
qed

text \<open>
  An identifier that no example environment holds, and the environment \<open>stg\<close> without a
  snapshot under an identifier that \<open>dev\<close> holds.
\<close>

theorem unresolved_identifier_all_none_witness:
  "(by_identifier (Some env_a) ''ffffffffffffffffffffffff'' = None \<and>
    by_identifier (Some env_c) ''ffffffffffffffffffffffff'' = None) \<and>
   (distinct (map fst example_envs) \<and> (''stg'', None) \<in> set example_envs \<and> \<not> loaded None) \<and>
   (\<exists>res. search_by_block_id_multi_env example_envs ''ffffffffffffffffffffffff'' = Inr res \<and>
      fst ` set res = fst ` set example_envs \<and>
      (\<forall>e \<in> fst ` set example_envs. map_of res e = Some None)) \<and>
   (\<exists>res. search_by_block_id_multi_env example_envs ''67d2804ef38a8bfdf0172bce'' = Inr res \<and>
      map_of res ''stg'' = Some None)"
proof -
  have h1: "\<forall>x \<in> set example_envs. by_identifier (snd x) ''ffffffffffffffffffffffff'' = None"
    by code_simp
  have h2: "distinct (map fst example_envs) \<and> (''stg'', None) \<in> set example_envs \<and> \<not> loaded None"
    by (simp add: example_envs_def)
  note r1 = unresolved_identifier_all_none
      [of example_envs "''ffffffffffffffffffffffff''" "''stg''" None "''dev''" "''S1''" "''blk''",
       THEN conjunct2, THEN conjunct1, THEN mp, OF h1]
  note r2 = unresolved_identifier_all_none
      [of example_envs "''67d2804ef38a8bfdf0172bce''" "''stg''" None "''dev''" "''S1''" "''blk''",
       THEN conjunct2, THEN conjunct2, THEN mp, OF h2, THEN conjunct1]
  have h0: "by_identifier (Some env_a) ''ffffffffffffffffffffffff'' = None \<and>
      by_identifier (Some env_c) ''ffffffffffffffffffffffff'' = None"
    by code_simp
  show ?thesis
    by (rule conjI [OF h0 conjI [OF h2 conjI [OF r1 r2]]])
qed

text \<open>
  Claim C4, as the code has it. The dictionary of environments has distinct keys; let
  \<open>a\<close> be the first environment in which the identifier resolves, to the block \<open>src\<close>.
  Then the entry of \<open>a\<close> is \<open>src\<close> itself, with the queried identifier and the key
  \<^verbatim>\<open>'env'\<close> added. The entry of every other environment is its own lookup by identifier
  when the identifier resolves there too, and only otherwise the lookup by the scenario
  name and the block name of \<open>src\<close>. That lookup reads only the first scenario of that
  name: where the identifier does not resolve in \<open>b\<close> and the first block of that name in
  the first scenario of that name has the identifier \<open>id_b\<close>, the entry of \<open>b\<close> is that
  block, and \<open>id_b\<close> is not the queried identifier; where \<open>b\<close> has no scenario of that name,
  or the first one has no block of that name, the entry of \<open>b\<close> is \<^verbatim>\<open>None\<close>.
\<close>

theorem cross_environment_match:
  assumes "distinct (map fst envs)"
    and "List.find (\<lambda>x. by_identifier (snd x) bid \<noteq> None) envs = Some (a, sa)"
    and "by_identifier sa bid = Some src"
  shows "\<exists>res. search_by_block_id_multi_env envs bid = Inr res \<and>
           map_of res a = Some (Some (src\<lparr>bi_env := Some a\<rparr>)) \<and> bi_block_id src = bid \<and>
           (\<forall>b sb. (b, sb) \<in> set envs \<and> b \<noteq> a \<longrightarrow>
              map_of res b =
                Some (case by_identifier sb bid of
                        Some own \<Rightarrow> Some own
                      | None \<Rightarrow> by_collection_and_item_name sb
                                  (bi_scenario_name src) (bi_block_name src))) \<and>
           (\<forall>b scs sc it id_b.
              (b, Some scs) \<in> set envs \<and> b \<noteq> a \<and> by_identifier (Some scs) bid = None \<and>
              List.find (\<lambda>sc. scenario_name sc = Some (bi_scenario_name src)) scs = Some sc \<and>
              List.find (\<lambda>it. item_name it = Some (bi_block_name src))
                (get_default (scenario_items sc) []) = Some it \<and>
              item_id it = Some id_b \<longrightarrow>
              id_b \<noteq> bid \<and>
              map_of res b =
                Some (Some \<lparr>bi_scenario_id = get_default (scenario_id sc) ''N/A'',
                             bi_scenario_name = bi_scenario_name src,
                             bi_block_id = id_b,
                             bi_block_name = bi_block_name src,
                             bi_env = None\<rparr>)) \<and>
           (\<forall>b scs. (b, Some scs) \<in> set envs \<and> b \<noteq> a \<and> by_identifier (Some scs) bid = None \<and>
              (case List.find (\<lambda>sc. scenario_name sc = Some (bi_scenario_name src)) scs of
                 None \<Rightarrow> True
               | Some sc \<Rightarrow> List.find (\<lambda>it. item_name it = Some (bi_block_name src))
                              (get_default (scenario_items sc) []) = None) \<longrightarrow>
              map_of res b = Some None)"
proof -
  note d = assms(1) and f = assms(2)
  have s: "by_identifier (snd (a, sa)) bid = Some src"
    using assms(3) by simp
  from f have ain: "(a, sa) \<in> set envs"
    by (auto dest: find_SomeD)
  from search_result_lookup [OF f s] obtain res where
    r: "search_by_block_id_multi_env envs bid = Inr res" and
    l: "\<And>e. map_of res e =
              (if map_of (fst (foldl (id_scan_step bid) ([], None) envs)) e = Some None
               then (case map_of (find_matching_blocks_in_other_envs envs a
                                    (bi_scenario_name src) (bi_block_name src)) e of
                       Some (Some m) \<Rightarrow> Some (Some m)
                     | _ \<Rightarrow> Some None)
               else map_of (fst (foldl (id_scan_step bid) ([], None) envs)) e)"
    by (elim exE conjE) simp
  have ra: "map_of res a = Some (Some (src\<lparr>bi_env := Some a\<rparr>))"
    unfolding l [of a] scan_lookup [OF d ain] f using assms(3) by simp
  have rb: "map_of res b =
                Some (case by_identifier sb bid of
                        Some own \<Rightarrow> Some own
                      | None \<Rightarrow> by_collection_and_item_name sb
                                  (bi_scenario_name src) (bi_block_name src))"
    if "(b, sb) \<in> set envs" and "b \<noteq> a" for b sb
    unfolding l [of b] scan_lookup [OF d that(1)] find_matching_lookup [OF d that(1)] f
    using that(2) by (cases "by_identifier sb bid")
      (simp_all split: option.splits)
  have rc: "bi_block_id src = bid"
    using assms(3) by (rule by_identifier_block_id)
  have rd: "id_b \<noteq> bid \<and>
              map_of res b =
                Some (Some \<lparr>bi_scenario_id = get_default (scenario_id sc) ''N/A'',
                             bi_scenario_name = bi_scenario_name src,
                             bi_block_id = id_b,
                             bi_block_name = bi_block_name src,
                             bi_env = None\<rparr>)"
    if m: "(b, Some scs) \<in> set envs" and n: "b \<noteq> a"
      and i: "by_identifier (Some scs) bid = None"
      and fs: "List.find (\<lambda>sc. scenario_name sc = Some (bi_scenario_name src)) scs = Some sc"
      and fi: "List.find (\<lambda>it. item_name it = Some (bi_block_name src))
                (get_default (scenario_items sc) []) = Some it"
      and ii: "item_id it = Some id_b"
    for b scs sc it id_b
  proof
    from fs fi have "sc \<in> set scs" "it \<in> set (get_default (scenario_items sc) [])"
      by (auto dest: find_SomeD)
    from search_blocks_by_id_finds [OF this] i show "id_b \<noteq> bid"
      using ii by (auto simp: by_identifier_def)
    show "map_of res b =
                Some (Some \<lparr>bi_scenario_id = get_default (scenario_id sc) ''N/A'',
                             bi_scenario_name = bi_scenario_name src,
                             bi_block_id = id_b,
                             bi_block_name = bi_block_name src,
                             bi_env = None\<rparr>)"
    proof -
      have g: "get_default (item_id it) ''N/A'' = id_b"
        using ii by (simp add: get_default_def)
      show ?thesis
        unfolding rb [OF m n] i
        by (simp add: by_collection_and_item_name_def match_in_env_def fs fi g)
    qed
  qed
  have re: "map_of res b = Some None"
    if m: "(b, Some scs) \<in> set envs" and n: "b \<noteq> a"
      and i: "by_identifier (Some scs) bid = None"
      and c: "case List.find (\<lambda>sc. scenario_name sc = Some (bi_scenario_name src)) scs of
                 None \<Rightarrow> True
               | Some sc \<Rightarrow> List.find (\<lambda>it. item_name it = Some (bi_block_name src))
                              (get_default (scenario_items sc) []) = None"
    for b scs
  proof (cases "List.find (\<lambda>sc. scenario_name sc = Some (bi_scenario_name src)) scs")
    case None
    show ?thesis
      unfolding rb [OF m n] i
      by (simp add: by_collection_and_item_name_def match_in_env_def None)
  next
    case (Some sc)
    with c have "List.find (\<lambda>it. item_name it = Some (bi_block_name src))
                   (get_default (scenario_items sc) []) = None"
      by simp
    then show ?thesis
      unfolding rb [OF m n] i
      by (simp add: by_collection_and_item_name_def match_in_env_def Some)
  qed
  show ?thesis
    apply (rule exI [of _ res])
    apply (intro conjI)
        apply (rule r)
       apply (rule ra)
      apply (rule rc)
     apply (intro allI impI, elim conjE, rule rb; assumption)
    apply (intro allI impI, elim conjE, rule rd; assumption)
    apply (intro allI impI, elim conjE, rule re; assumption)
    done
qed

text \<open>
  The block \<open>blk\<close> of \<open>S1\<close> has different identifiers in \<open>dev\<close> and \<open>prod\<close>, and the identifier of
  \<open>dev\<close> does not occur in \<open>prod\<close>: the query by the identifier of \<open>dev\<close> returns the
  identifier of \<open>prod\<close> under \<open>prod\<close>. Where the first scenario \<open>S1\<close> of \<open>prod\<close> has no block
  \<open>blk\<close> and a second scenario \<open>S1\<close> has it, the entry of \<open>prod\<close> is \<^verbatim>\<open>None\<close>.
\<close>

theorem cross_environment_match_witness:
  "(\<exists>res. search_by_block_id_multi_env example_envs ''67d2804ef38a8bfdf0172bce'' = Inr res \<and>
      map_of res ''dev'' =
        Some (Some \<lparr>bi_scenario_id = ''sa1'', bi_scenario_name = ''S1'',
                     bi_block_id = ''67d2804ef38a8bfdf0172bce'', bi_block_name = ''blk'',
                     bi_env = Some ''dev''\<rparr>) \<and>
      map_of res ''prod'' =
        Some (Some \<lparr>bi_scenario_id = ''sb1'', bi_scenario_name = ''S1'',
                     bi_block_id = ''0123456789abcdef01234567'', bi_block_name = ''blk'',
                     bi_env = None\<rparr>) \<and>
      map_of res ''stg'' = Some None) \<and>
   (\<exists>res. search_by_block_id_multi_env dup_envs ''67d2804ef38a8bfdf0172bce'' = Inr res \<and>
      map_of res ''dev'' =
        Some (Some \<lparr>bi_scenario_id = ''sa1'', bi_scenario_name = ''S1'',
                     bi_block_id = ''67d2804ef38a8bfdf0172bce'', bi_block_name = ''blk'',
                     bi_env = Some ''dev''\<rparr>) \<and>
      map_of res ''prod'' = Some None)"
proof -
  define src where "src = \<lparr>bi_scenario_id = ''sa1'', bi_scenario_name = ''S1'',
                    bi_block_id = ''67d2804ef38a8bfdf0172bce'', bi_block_name = ''blk'',
                    bi_env = None\<rparr>"
  define sc where "sc = \<lparr>scenario_id = Some ''sb1'', scenario_name = Some ''S1'',
       scenario_items =
         Some [\<lparr>item_id = Some ''0123456789abcdef01234567'', item_name = Some ''blk''\<rparr>]\<rparr>"
  define it where
    "it = \<lparr>item_id = Some ''0123456789abcdef01234567'', item_name = Some ''blk''\<rparr>"
  have h1: "distinct (map fst example_envs)"
    by (simp add: example_envs_def)
  have h2: "List.find (\<lambda>x. by_identifier (snd x) ''67d2804ef38a8bfdf0172bce'' \<noteq> None) example_envs
            = Some (''dev'', Some env_a)"
    by code_simp
  have h3: "by_identifier (Some env_a) ''67d2804ef38a8bfdf0172bce'' = Some src"
    unfolding src_def by code_simp
  have p: "by_identifier (Some env_c) ''67d2804ef38a8bfdf0172bce'' = None"
    "by_identifier None ''67d2804ef38a8bfdf0172bce'' = None"
    "by_collection_and_item_name None ''S1'' ''blk'' = None"
    by code_simp+
  have q: "List.find (\<lambda>sc. scenario_name sc = Some (bi_scenario_name src)) env_c = Some sc"
    "List.find (\<lambda>it. item_name it = Some (bi_block_name src))
       (get_default (scenario_items sc) []) = Some it"
    "item_id it = Some ''0123456789abcdef01234567''"
    unfolding src_def sc_def it_def by code_simp+
  have m: "(''prod'', Some env_c) \<in> set example_envs" "(''stg'', None) \<in> set example_envs"
    "''prod'' \<noteq> ''dev''" "''stg'' \<noteq> ''dev''"
    by (simp_all add: example_envs_def)
  from cross_environment_match [OF h1 h2 h3] obtain res where
    r: "search_by_block_id_multi_env example_envs ''67d2804ef38a8bfdf0172bce'' = Inr res" and
    a: "map_of res ''dev'' = Some (Some (src\<lparr>bi_env := Some ''dev''\<rparr>))" and
    b: "\<forall>b sb. (b, sb) \<in> set example_envs \<and> b \<noteq> ''dev'' \<longrightarrow>
              map_of res b =
                Some (case by_identifier sb ''67d2804ef38a8bfdf0172bce'' of
                        Some own \<Rightarrow> Some own
                      | None \<Rightarrow> by_collection_and_item_name sb
                                  (bi_scenario_name src) (bi_block_name src))" and
    c: "\<forall>b scs sc it id_b.
              (b, Some scs) \<in> set example_envs \<and> b \<noteq> ''dev'' \<and>
              by_identifier (Some scs) ''67d2804ef38a8bfdf0172bce'' = None \<and>
              List.find (\<lambda>sc. scenario_name sc = Some (bi_scenario_name src)) scs = Some sc \<and>
              List.find (\<lambda>it. item_name it = Some (bi_block_name src))
                (get_default (scenario_items sc) []) = Some it \<and>
              item_id it = Some id_b \<longrightarrow>
              id_b \<noteq> ''67d2804ef38a8bfdf0172bce'' \<and>
              map_of res b =
                Some (Some \<lparr>bi_scenario_id = get_default (scenario_id sc) ''N/A'',
                             bi_scenario_name = bi_scenario_name src,
                             bi_block_id = id_b,
                             bi_block_name = bi_block_name src,
                             bi_env = None\<rparr>)"
    by (elim exE conjE) (rule that; assumption)
  have hc: "(''prod'', Some env_c) \<in> set example_envs \<and> ''prod'' \<noteq> ''dev'' \<and>
              by_identifier (Some env_c) ''67d2804ef38a8bfdf0172bce'' = None \<and>
              List.find (\<lambda>sc. scenario_name sc = Some (bi_scenario_name src)) env_c = Some sc \<and>
              List.find (\<lambda>it. item_name it = Some (bi_block_name src))
                (get_default (scenario_items sc) []) = Some it \<and>
              item_id it = Some ''0123456789abcdef01234567''"
    by (intro conjI m p q)
  have hs: "(''stg'', None) \<in> set example_envs \<and> ''stg'' \<noteq> ''dev''"
    by (intro conjI m)
  have rp: "map_of res ''prod'' =
        Some (Some \<lparr>bi_scenario_id = ''sb1'', bi_scenario_name = ''S1'',
                     bi_block_id = ''0123456789abcdef01234567'', bi_block_name = ''blk'',
                     bi_env = None\<rparr>)"
    using c [rule_format, OF hc, THEN conjunct2]
    by (simp add: src_def sc_def get_default_def)
  have rs: "map_of res ''stg'' = Some None"
    using b [rule_format, OF hs] by (simp add: p src_def)
  have ra: "map_of res ''dev'' =
        Some (Some \<lparr>bi_scenario_id = ''sa1'', bi_scenario_name = ''S1'',
                     bi_block_id = ''67d2804ef38a8bfdf0172bce'', bi_block_name = ''blk'',
                     bi_env = Some ''dev''\<rparr>)"
    using a by (simp add: src_def)
  have first: "\<exists>res. search_by_block_id_multi_env example_envs ''67d2804ef38a8bfdf0172bce'' = Inr res \<and>
      map_of res ''dev'' =
        Some (Some \<lparr>bi_scenario_id = ''sa1'', bi_scenario_name = ''S1'',
                     bi_block_id = ''67d2804ef38a8bfdf0172bce'', bi_block_name = ''blk'',
                     bi_env = Some ''dev''\<rparr>) \<and>
      map_of res ''prod'' =
        Some (Some \<lparr>bi_scenario_id = ''sb1'', bi_scenario_name = ''S1'',
                     bi_block_id = ''0123456789abcdef01234567'', bi_block_name = ''blk'',
                     bi_env = None\<rparr>) \<and>
      map_of res ''stg'' = Some None"
    by (rule exI [of _ res]) (intro conjI r ra rp rs)
  have g1: "distinct (map fst dup_envs)"
    by (simp add: dup_envs_def)
  have g2: "List.find (\<lambda>x. by_identifier (snd x) ''67d2804ef38a8bfdf0172bce'' \<noteq> None) dup_envs
            = Some (''dev'', Some env_a)"
    by code_simp
  have hd: "(''prod'', Some env_dup) \<in> set dup_envs \<and> ''prod'' \<noteq> ''dev'' \<and>
              by_identifier (Some env_dup) ''67d2804ef38a8bfdf0172bce'' = None \<and>
              (case List.find (\<lambda>sc. scenario_name sc = Some (bi_scenario_name src)) env_dup of
                 None \<Rightarrow> True
               | Some sc \<Rightarrow> List.find (\<lambda>it. item_name it = Some (bi_block_name src))
                              (get_default (scenario_items sc) []) = None)"
  proof (intro conjI)
    show "(''prod'', Some env_dup) \<in> set dup_envs"
      by (simp add: dup_envs_def)
    show "''prod'' \<noteq> ''dev''"
      by simp
    show "by_identifier (Some env_dup) ''67d2804ef38a8bfdf0172bce'' = None"
      by code_simp
    show "case List.find (\<lambda>sc. scenario_name sc = Some (bi_scenario_name src)) env_dup of
                 None \<Rightarrow> True
               | Some sc \<Rightarrow> List.find (\<lambda>it. item_name it = Some (bi_block_name src))
                              (get_default (scenario_items sc) []) = None"
      unfolding src_def by code_simp
  qed
  from cross_environment_match [OF g1 g2 h3] obtain res' where
    r': "search_by_block_id_multi_env dup_envs ''67d2804ef38a8bfdf0172bce'' = Inr res'" and
    a': "map_of res' ''dev'' = Some (Some (src\<lparr>bi_env := Some ''dev''\<rparr>))" and
    e': "\<forall>b scs. (b, Some scs) \<in> set dup_envs \<and> b \<noteq> ''dev'' \<and>
              by_identifier (Some scs) ''67d2804ef38a8bfdf0172bce'' = None \<and>
              (case List.find (\<lambda>sc. scenario_name sc = Some (bi_scenario_name src)) scs of
                 None \<Rightarrow> True
               | Some sc \<Rightarrow> List.find (\<lambda>it. item_name it = Some (bi_block_name src))
                              (get_default (scenario_items sc) []) = None) \<longrightarrow>
              map_of res' b = Some None"
    by (elim exE conjE) (rule that; assumption)
  have ra': "map_of res' ''dev'' =
        Some (Some \<lparr>bi_scenario_id = ''sa1'', bi_scenario_name = ''S1'',
                     bi_block_id = ''67d2804ef38a8bfdf0172bce'', bi_block_name = ''blk'',
                     bi_env = Some ''dev''\<rparr>)"
    using a' by (simp add: src_def)
  have second: "\<exists>res. search_by_block_id_multi_env dup_envs ''67d2804ef38a8bfdf0172bce'' = Inr res \<and>
      map_of res ''dev'' =
        Some (Some \<lparr>bi_scenario_id = ''sa1'', bi_scenario_name = ''S1'',
                     bi_block_id = ''67d2804ef38a8bfdf0172bce'', bi_block_name = ''blk'',
                     bi_env = Some ''dev''\<rparr>) \<and>
      map_of res ''prod'' = Some None"
    by (rule exI [of _ res']) (intro conjI r' ra' e' [rule_format, OF hd])
  show ?thesis
    by (rule conjI [OF first second])
qed

text \<open>
  Claim C4 as stated fails where the identifier of \<open>dev\<close> also occurs in \<open>prod\<close>, on another
  block: the entry of \<open>prod\<close> is that other block, not the block that the lookup by name
  finds in \<open>prod\<close>.
\<close>

theorem cross_environment_match_counterexample:
  "search_by_block_id_multi_env conflicting_envs ''67d2804ef38a8bfdf0172bce'' =
     Inr [(''dev'', Some \<lparr>bi_scenario_id = ''sa1'', bi_scenario_name = ''S1'',
                          bi_block_id = ''67d2804ef38a8bfdf0172bce'', bi_block_name = ''blk'',
                          bi_env = Some ''dev''\<rparr>),
          (''prod'', Some \<lparr>bi_scenario_id = ''sb2'', bi_scenario_name = ''S2'',
                           bi_block_id = ''67d2804ef38a8bfdf0172bce'', bi_block_name = ''other'',
                           bi_env = None\<rparr>)] \<and>
   match_in_env env_b ''S1'' ''blk'' =
     Some \<lparr>bi_scenario_id = ''sb1'', bi_scenario_name = ''S1'',
           bi_block_id = ''0123456789abcdef01234567'', bi_block_name = ''blk'', bi_env = None\<rparr>"
  by code_simp

section \<open>Properties of the search mode\<close>

text \<open>The loop that looks for the input as an identifier, and the test \<^verbatim>\<open>in\<close> on strings.\<close>

lemma block_id_found_iff:
  "block_id_found envs term \<longleftrightarrow> (\<exists>x \<in> set envs. by_identifier (snd x) term \<noteq> None)"
proof (induction envs)
  case Nil
  then show ?case by simp
next
  case (Cons x envs)
  obtain e s where x: "x = (e, s)" by (cases x)
  show ?case
  proof (cases s)
    case None
    with Cons x show ?thesis by (simp add: by_identifier_def)
  next
    case (Some scs)
    have "loaded (Some scs) \<and> search_blocks_by_id scs term \<noteq> None
          \<longleftrightarrow> search_blocks_by_id scs term \<noteq> None"
      by (cases scs) simp_all
    with Cons x Some show ?thesis by (simp add: by_identifier_def)
  qed
qed

lemma str_contains_iff: "str_contains hay needle \<longleftrightarrow> (\<exists>p q. hay = p @ needle @ q)"
proof (induction hay)
  case Nil
  then show ?case by auto
next
  case (Cons c hay)
  have "take (length needle) (c # hay) = needle \<longleftrightarrow> (\<exists>q. c # hay = needle @ q)"
    by (metis append_eq_conv_conj append_take_drop_id)
  moreover have "(\<exists>p q. c # hay = p @ needle @ q)
        \<longleftrightarrow> (\<exists>q. c # hay = needle @ q) \<or> (\<exists>p q. hay = p @ needle @ q)"
  proof
    assume "\<exists>p q. c # hay = p @ needle @ q"
    then obtain p q where pq: "c # hay = p @ needle @ q" by blast
    show "(\<exists>q. c # hay = needle @ q) \<or> (\<exists>p q. hay = p @ needle @ q)"
    proof (cases p)
      case Nil
      with pq show ?thesis by auto
    next
      case (Cons a p')
      with pq have "hay = p' @ needle @ q" by simp
      then show ?thesis by blast
    qed
  next
    assume "(\<exists>q. c # hay = needle @ q) \<or> (\<exists>p q. hay = p @ needle @ q)"
    then show "\<exists>p q. c # hay = p @ needle @ q"
    proof
      assume "\<exists>q. c # hay = needle @ q"
      then show ?thesis by (metis append_Nil)
    next
      assume "\<exists>p q. hay = p @ needle @ q"
      then obtain p q where "hay = p @ needle @ q" by blast
      then have "c # hay = (c # p) @ needle @ q" by simp
      then show ?thesis by blast
    qed
  qed
  ultimately show ?case using Cons by simp
qed

lemma search_blocks_iff:
  "r \<in> set (search_blocks scs term) \<longleftrightarrow>
     term \<noteq> [] \<and>
     (\<exists>sc \<in> set scs. \<exists>it \<in> set (get_default (scenario_items sc) []).
        (\<exists>p q. lower (get_default (item_name it) []) = p @ lower term @ q) \<and>
        r = \<lparr>bi_scenario_id = get_default (scenario_id sc) ''N/A'',
              bi_scenario_name = get_default (scenario_name sc) ''N/A'',
              bi_block_id = get_default (item_id it) ''N/A'',
              bi_block_name = get_default (item_name it) [],
              bi_env = None\<rparr>)"
  unfolding search_blocks_def str_contains_iff [symmetric]
  by (cases "term = []") auto

lemma search_blocks_multi_env_lookup:
  "distinct (map fst envs) \<Longrightarrow> (e, s) \<in> set envs \<Longrightarrow>
     map_of (search_blocks_multi_env envs term) e =
       Some (case s of None \<Rightarrow> [] | Some scs \<Rightarrow> search_blocks scs term)"
  unfolding search_blocks_multi_env_fold
  using map_of_foldl_update
    [of envs e s "\<lambda>x. case snd x of None \<Rightarrow> [] | Some scs \<Rightarrow> search_blocks scs term" "[]"]
  by simp


lemma add_result_keys:
  "fst ` set (add_result e G r) = insert (group_key r) (fst ` set G)"
  by (simp add: add_result_def Let_def dom_update)

lemma add_result_distinct:
  "distinct (map fst G) \<Longrightarrow> distinct (map fst (add_result e G r))"
  by (simp add: add_result_def Let_def distinct_update)

lemma add_result_named:
  assumes "r \<in> S"
    and "\<And>k g. map_of G k = Some g \<Longrightarrow>
           \<exists>r \<in> S. k = group_key r \<and> bg_scenario_name g = bi_scenario_name r \<and>
                    bg_block_name g = bi_block_name r"
    and "map_of (add_result e G r) k = Some g"
  shows "\<exists>r \<in> S. k = group_key r \<and> bg_scenario_name g = bi_scenario_name r \<and>
                    bg_block_name g = bi_block_name r"
proof (cases "k = group_key r")
  case False
  with assms(3) have "map_of G k = Some g"
    by (simp add: add_result_def Let_def update_conv')
  then show ?thesis by (rule assms(2))
next
  case True
  show ?thesis
  proof (cases "map_of G (group_key r)")
    case None
    with True assms(3) have "bg_scenario_name g = bi_scenario_name r \<and>
        bg_block_name g = bi_block_name r"
      by (auto simp: add_result_def Let_def update_conv')
    with True assms(1) show ?thesis by blast
  next
    case (Some g0)
    with True assms(3) have "bg_scenario_name g = bg_scenario_name g0 \<and>
        bg_block_name g = bg_block_name g0"
      by (auto simp: add_result_def Let_def update_conv')
    moreover from assms(2) [OF Some] obtain r0 where "r0 \<in> S" "group_key r = group_key r0"
      "bg_scenario_name g0 = bi_scenario_name r0" "bg_block_name g0 = bi_block_name r0"
      by blast
    ultimately show ?thesis using True by auto
  qed
qed

lemma add_results_keys:
  "fst ` set (foldl (add_result e) G rs) = fst ` set G \<union> group_key ` set rs"
  by (induction rs arbitrary: G) (auto simp: add_result_keys)

lemma add_results_distinct:
  "distinct (map fst G) \<Longrightarrow> distinct (map fst (foldl (add_result e) G rs))"
  by (induction rs arbitrary: G) (auto simp: add_result_distinct)

lemma add_results_named:
  assumes "set rs \<subseteq> S"
    and "\<And>k g. map_of G k = Some g \<Longrightarrow>
           \<exists>r \<in> S. k = group_key r \<and> bg_scenario_name g = bi_scenario_name r \<and>
                    bg_block_name g = bi_block_name r"
    and "map_of (foldl (add_result e) G rs) k = Some g"
  shows "\<exists>r \<in> S. k = group_key r \<and> bg_scenario_name g = bi_scenario_name r \<and>
                    bg_block_name g = bi_block_name r"
  using assms
proof (induction rs arbitrary: G k g)
  case Nil
  then show ?case by simp
next
  case (Cons r rs)
  from Cons.prems(1) have r: "r \<in> S" and rs: "set rs \<subseteq> S" by auto
  have "\<And>k g. map_of (add_result e G r) k = Some g \<Longrightarrow>
           \<exists>r \<in> S. k = group_key r \<and> bg_scenario_name g = bi_scenario_name r \<and>
                    bg_block_name g = bi_block_name r"
    by (rule add_result_named [OF r Cons.prems(2)])
  from Cons.IH [OF rs this] Cons.prems(3) show ?case by simp
qed


lemma groups_keys:
  "fst ` set (foldl (\<lambda>block_groups (env_name, results).
                       foldl (add_result env_name) block_groups results) G R)
     = fst ` set G \<union> group_key ` (\<Union>x \<in> set R. set (snd x))"
  by (induction R arbitrary: G) (auto simp: add_results_keys split_def)

lemma groups_distinct:
  "distinct (map fst G) \<Longrightarrow>
     distinct (map fst (foldl (\<lambda>block_groups (env_name, results).
                       foldl (add_result env_name) block_groups results) G R))"
  by (induction R arbitrary: G) (auto simp: add_results_distinct split_def)

lemma groups_named:
  assumes "(\<Union>x \<in> set R. set (snd x)) \<subseteq> S"
    and "\<And>k g. map_of G k = Some g \<Longrightarrow>
           \<exists>r \<in> S. k = group_key r \<and> bg_scenario_name g = bi_scenario_name r \<and>
                    bg_block_name g = bi_block_name r"
    and "map_of (foldl (\<lambda>block_groups (env_name, results).
                       foldl (add_result env_name) block_groups results) G R) k = Some g"
  shows "\<exists>r \<in> S. k = group_key r \<and> bg_scenario_name g = bi_scenario_name r \<and>
                    bg_block_name g = bi_block_name r"
  using assms
proof (induction R arbitrary: G k g)
  case Nil
  then show ?case by simp
next
  case (Cons x R)
  obtain e rs where x: "x = (e, rs)" by (cases x)
  from Cons.prems(1) x have rs: "set rs \<subseteq> S" and R: "(\<Union>x \<in> set R. set (snd x)) \<subseteq> S"
    by auto
  have "\<And>k g. map_of (foldl (add_result e) G rs) k = Some g \<Longrightarrow>
           \<exists>r \<in> S. k = group_key r \<and> bg_scenario_name g = bi_scenario_name r \<and>
                    bg_block_name g = bi_block_name r"
    by (rule add_results_named [OF rs Cons.prems(2)])
  from Cons.IH [OF R this] Cons.prems(3) x show ?case by simp
qed

lemma groups_empty:
  "\<forall>x \<in> set R. snd x = [] \<Longrightarrow>
     foldl (\<lambda>block_groups (env_name, results).
              foldl (add_result env_name) block_groups results) G R = G"
  by (induction R arbitrary: G) (auto simp: split_def)

lemma display_rows:
  "display_search_results_multi_env R = sort_key fst (block_groups_of R)"
proof (cases "sum_list (map (\<lambda>(env_name, results). length results) R) = 0")
  case True
  then have "\<forall>x \<in> set R. snd x = []"
    by (auto simp: split_def)
  then have "block_groups_of R = []"
    unfolding block_groups_of_def by (rule groups_empty)
  with True show ?thesis
    by (simp add: display_search_results_multi_env_def)
next
  case False
  then show ?thesis
    unfolding display_search_results_multi_env_def by (simp only: if_False)
qed

lemma distinct_map_insort_key:
  "distinct (map f (insort_key f x xs)) \<longleftrightarrow> f x \<notin> f ` set xs \<and> distinct (map f xs)"
  by (induction xs) (auto simp: set_insort_key)

lemma distinct_map_sort_key: "distinct (map f (sort_key f xs)) \<longleftrightarrow> distinct (map f xs)"
  by (induction xs) (simp_all add: distinct_map_insort_key)

lemma colon_split:
  "CHR '':'' \<notin> set a \<Longrightarrow> CHR '':'' \<notin> set b \<Longrightarrow> a @ ''::'' @ x = b @ ''::'' @ y \<Longrightarrow>
     a = b \<and> x = y"
proof (induction a arbitrary: b)
  case Nil
  then show ?case by (cases b) auto
next
  case (Cons c a)
  then show ?case by (cases b) auto
qed


text \<open>
  The search mode on the code. The typed line is stripped; \<^verbatim>\<open>0\<close> and \<^verbatim>\<open>exit\<close> end the
  mode and an empty line searches nothing. Every other input is searched by identifier
  exactly when it is the identifier of a block in some environment with a snapshot, and
  the source of that search is the first such environment in the order of the
  dictionary. Otherwise it is searched by name: in every environment, the blocks whose
  lower-cased name contains the lower-cased input. The rows of the result have strictly
  increasing key strings, each is the key string of a result and has the names of a
  result of that key, and results of different names have different key strings
  whenever their scenario names contain no colon.
\<close>

theorem search_mode_dispatch:
  "main_search envs typed =
     (if strip typed = ''0'' \<or> lower (strip typed) = ''exit'' then SearchModeEnds
      else if strip typed = [] then NoSearchTerm
      else if \<exists>x \<in> set envs. by_identifier (snd x) (strip typed) \<noteq> None
           then BlockIdResults (search_by_block_id_multi_env envs (strip typed))
           else NameResults (display_search_results_multi_env
                               (search_blocks_multi_env envs (strip typed)))) \<and>
   snd (foldl (id_scan_step search_input) ([], None) envs) =
     (case List.find (\<lambda>x. by_identifier (snd x) search_input \<noteq> None) envs of
        None \<Rightarrow> None
      | Some x \<Rightarrow> map_option (\<lambda>bi. bi\<lparr>bi_env := Some (fst x)\<rparr>)
                    (by_identifier (snd x) search_input)) \<and>
   (distinct (map fst envs) \<and> (e, s) \<in> set envs \<longrightarrow>
      map_of (search_blocks_multi_env envs search_input) e =
        Some (case s of None \<Rightarrow> [] | Some scs \<Rightarrow> search_blocks scs search_input)) \<and>
   (r \<in> set (search_blocks scs search_input) \<longleftrightarrow>
      search_input \<noteq> [] \<and>
      (\<exists>sc \<in> set scs. \<exists>it \<in> set (get_default (scenario_items sc) []).
         (\<exists>p q. lower (get_default (item_name it) []) = p @ lower search_input @ q) \<and>
         r = \<lparr>bi_scenario_id = get_default (scenario_id sc) ''N/A'',
               bi_scenario_name = get_default (scenario_name sc) ''N/A'',
               bi_block_id = get_default (item_id it) ''N/A'',
               bi_block_name = get_default (item_name it) [],
               bi_env = None\<rparr>)) \<and>
   sorted_wrt (<) (map fst (display_search_results_multi_env R)) \<and>
   set (map fst (display_search_results_multi_env R)) = group_key ` (\<Union>x \<in> set R. set (snd x)) \<and>
   ((k, g) \<in> set (display_search_results_multi_env R) \<longrightarrow>
      (\<exists>x \<in> set R. \<exists>r \<in> set (snd x).
         k = group_key r \<and> bg_scenario_name g = bi_scenario_name r \<and>
         bg_block_name g = bi_block_name r)) \<and>
   (group_key r1 = group_key r2 \<and> CHR '':'' \<notin> set (bi_scenario_name r1) \<and>
    CHR '':'' \<notin> set (bi_scenario_name r2) \<longrightarrow>
      bi_scenario_name r1 = bi_scenario_name r2 \<and> bi_block_name r1 = bi_block_name r2)"
proof (intro conjI impI)
  show "main_search envs typed =
     (if strip typed = ''0'' \<or> lower (strip typed) = ''exit'' then SearchModeEnds
      else if strip typed = [] then NoSearchTerm
      else if \<exists>x \<in> set envs. by_identifier (snd x) (strip typed) \<noteq> None
           then BlockIdResults (search_by_block_id_multi_env envs (strip typed))
           else NameResults (display_search_results_multi_env
                               (search_blocks_multi_env envs (strip typed))))"
    unfolding main_search_def Let_def block_id_found_iff by simp
next
  show "snd (foldl (id_scan_step search_input) ([], None) envs) =
     (case List.find (\<lambda>x. by_identifier (snd x) search_input \<noteq> None) envs of
        None \<Rightarrow> None
      | Some x \<Rightarrow> map_option (\<lambda>bi. bi\<lparr>bi_env := Some (fst x)\<rparr>)
                    (by_identifier (snd x) search_input))"
    by (rule scan_source)
next
  assume "distinct (map fst envs) \<and> (e, s) \<in> set envs"
  then have "distinct (map fst envs)" "(e, s) \<in> set envs" by simp_all
  then show "map_of (search_blocks_multi_env envs search_input) e =
        Some (case s of None \<Rightarrow> [] | Some scs \<Rightarrow> search_blocks scs search_input)"
    by (rule search_blocks_multi_env_lookup)
next
  show "r \<in> set (search_blocks scs search_input) \<longleftrightarrow>
      search_input \<noteq> [] \<and>
      (\<exists>sc \<in> set scs. \<exists>it \<in> set (get_default (scenario_items sc) []).
         (\<exists>p q. lower (get_default (item_name it) []) = p @ lower search_input @ q) \<and>
         r = \<lparr>bi_scenario_id = get_default (scenario_id sc) ''N/A'',
               bi_scenario_name = get_default (scenario_name sc) ''N/A'',
               bi_block_id = get_default (item_id it) ''N/A'',
               bi_block_name = get_default (item_name it) [],
               bi_env = None\<rparr>)"
    by (rule search_blocks_iff)
next
  have d: "distinct (map fst (block_groups_of R))"
    unfolding block_groups_of_def by (rule groups_distinct) simp
  show "sorted_wrt (<) (map fst (display_search_results_multi_env R))"
    unfolding display_rows strict_sorted_iff
    by (simp add: distinct_map_sort_key d)
  show "set (map fst (display_search_results_multi_env R)) = group_key ` (\<Union>x \<in> set R. set (snd x))"
    unfolding display_rows by (simp add: block_groups_of_def groups_keys)
  assume "(k, g) \<in> set (display_search_results_multi_env R)"
  then have "map_of (block_groups_of R) k = Some g"
    unfolding display_rows using d by simp
  then show "\<exists>x \<in> set R. \<exists>r \<in> set (snd x).
         k = group_key r \<and> bg_scenario_name g = bi_scenario_name r \<and>
         bg_block_name g = bi_block_name r"
    unfolding block_groups_of_def
    using groups_named [of R "\<Union>x \<in> set R. set (snd x)" "[]" k g] by auto
next
  assume "group_key r1 = group_key r2 \<and> CHR '':'' \<notin> set (bi_scenario_name r1) \<and>
    CHR '':'' \<notin> set (bi_scenario_name r2)"
  then show "bi_scenario_name r1 = bi_scenario_name r2" "bi_block_name r1 = bi_block_name r2"
    using colon_split [of "bi_scenario_name r1" "bi_scenario_name r2" "bi_block_name r1" "bi_block_name r2"]
    by (simp_all add: group_key_def)
qed

text \<open>
  The search for \<^verbatim>\<open>BL\<close> in the example environments: the results of \<open>prod\<close>, the one row
  for the block \<open>blk\<close> of \<open>S1\<close>, and the two results behind it.
\<close>

theorem search_mode_dispatch_witness:
  "(distinct (map fst example_envs) \<and> (''prod'', Some env_c) \<in> set example_envs) \<and>
   map_of (search_blocks_multi_env example_envs ''BL'') ''prod'' = Some (search_blocks env_c ''BL'') \<and>
   (''S1::blk'', \<lparr>bg_scenario_name = ''S1'', bg_block_name = ''blk'',
        bg_envs = [(''dev'', (''sa1'', ''67d2804ef38a8bfdf0172bce'')),
                   (''prod'', (''sb1'', ''0123456789abcdef01234567''))]\<rparr>) \<in>
      set (display_search_results_multi_env (search_blocks_multi_env example_envs ''BL'')) \<and>
   (\<exists>x r. x \<in> set (search_blocks_multi_env example_envs ''BL'') \<and> r \<in> set (snd x) \<and>
      ''S1::blk'' = group_key r \<and> bi_scenario_name r = ''S1'' \<and> bi_block_name r = ''blk'') \<and>
   (group_key (\<lparr>bi_scenario_id = ''sa1'', bi_scenario_name = ''S1'',
       bi_block_id = ''67d2804ef38a8bfdf0172bce'', bi_block_name = ''blk'', bi_env = None\<rparr>) = group_key (\<lparr>bi_scenario_id = ''sb1'', bi_scenario_name = ''S1'',
       bi_block_id = ''0123456789abcdef01234567'', bi_block_name = ''blk'', bi_env = None\<rparr>) \<and>
    CHR '':'' \<notin> set (bi_scenario_name (\<lparr>bi_scenario_id = ''sa1'', bi_scenario_name = ''S1'',
       bi_block_id = ''67d2804ef38a8bfdf0172bce'', bi_block_name = ''blk'', bi_env = None\<rparr>)) \<and>
    CHR '':'' \<notin> set (bi_scenario_name (\<lparr>bi_scenario_id = ''sb1'', bi_scenario_name = ''S1'',
       bi_block_id = ''0123456789abcdef01234567'', bi_block_name = ''blk'', bi_env = None\<rparr>))) \<and>
   bi_block_name (\<lparr>bi_scenario_id = ''sa1'', bi_scenario_name = ''S1'',
       bi_block_id = ''67d2804ef38a8bfdf0172bce'', bi_block_name = ''blk'', bi_env = None\<rparr>) = bi_block_name (\<lparr>bi_scenario_id = ''sb1'', bi_scenario_name = ''S1'',
       bi_block_id = ''0123456789abcdef01234567'', bi_block_name = ''blk'', bi_env = None\<rparr>)"
proof -
  have h1: "distinct (map fst example_envs) \<and> (''prod'', Some env_c) \<in> set example_envs"
    by (simp add: example_envs_def)
  have h2: "(''S1::blk'', \<lparr>bg_scenario_name = ''S1'', bg_block_name = ''blk'',
        bg_envs = [(''dev'', (''sa1'', ''67d2804ef38a8bfdf0172bce'')),
                   (''prod'', (''sb1'', ''0123456789abcdef01234567''))]\<rparr>) \<in>
      set (display_search_results_multi_env (search_blocks_multi_env example_envs ''BL''))"
    by code_simp
  have h3: "group_key (\<lparr>bi_scenario_id = ''sa1'', bi_scenario_name = ''S1'',
       bi_block_id = ''67d2804ef38a8bfdf0172bce'', bi_block_name = ''blk'', bi_env = None\<rparr>) = group_key (\<lparr>bi_scenario_id = ''sb1'', bi_scenario_name = ''S1'',
       bi_block_id = ''0123456789abcdef01234567'', bi_block_name = ''blk'', bi_env = None\<rparr>) \<and>
    CHR '':'' \<notin> set (bi_scenario_name (\<lparr>bi_scenario_id = ''sa1'', bi_scenario_name = ''S1'',
       bi_block_id = ''67d2804ef38a8bfdf0172bce'', bi_block_name = ''blk'', bi_env = None\<rparr>)) \<and>
    CHR '':'' \<notin> set (bi_scenario_name (\<lparr>bi_scenario_id = ''sb1'', bi_scenario_name = ''S1'',
       bi_block_id = ''0123456789abcdef01234567'', bi_block_name = ''blk'', bi_env = None\<rparr>))"
    by (simp add: group_key_def)
  note t = search_mode_dispatch [where envs = example_envs and typed = "''BL''"
      and search_input = "''BL''"
      and e = "''prod''" and s = "Some env_c"
      and R = "search_blocks_multi_env example_envs ''BL''" and k = "''S1::blk''"
      and g = "\<lparr>bg_scenario_name = ''S1'', bg_block_name = ''blk'',
        bg_envs = [(''dev'', (''sa1'', ''67d2804ef38a8bfdf0172bce'')),
                   (''prod'', (''sb1'', ''0123456789abcdef01234567''))]\<rparr>" and ?r1.0 = "\<lparr>bi_scenario_id = ''sa1'', bi_scenario_name = ''S1'',
       bi_block_id = ''67d2804ef38a8bfdf0172bce'', bi_block_name = ''blk'', bi_env = None\<rparr>" and ?r2.0 = "\<lparr>bi_scenario_id = ''sb1'', bi_scenario_name = ''S1'',
       bi_block_id = ''0123456789abcdef01234567'', bi_block_name = ''blk'', bi_env = None\<rparr>"]
  note c1 = t [THEN conjunct2, THEN conjunct2, THEN conjunct1, THEN mp, OF h1]
  note c2 = t [THEN conjunct2, THEN conjunct2, THEN conjunct2, THEN conjunct2, THEN conjunct2,
      THEN conjunct2, THEN conjunct1, THEN mp, OF h2]
  note c3 = t [THEN conjunct2, THEN conjunct2, THEN conjunct2, THEN conjunct2, THEN conjunct2,
      THEN conjunct2, THEN conjunct2, THEN mp, OF h3]
  have d1: "map_of (search_blocks_multi_env example_envs ''BL'') ''prod''
            = Some (search_blocks env_c ''BL'')"
    using c1 by simp
  from c2 obtain x r where x: "x \<in> set (search_blocks_multi_env example_envs ''BL'')"
    and r: "r \<in> set (snd x)" and k: "''S1::blk'' = group_key r"
    and n: "bg_scenario_name (\<lparr>bg_scenario_name = ''S1'', bg_block_name = ''blk'',
        bg_envs = [(''dev'', (''sa1'', ''67d2804ef38a8bfdf0172bce'')),
                   (''prod'', (''sb1'', ''0123456789abcdef01234567''))]\<rparr>) = bi_scenario_name r" "bg_block_name (\<lparr>bg_scenario_name = ''S1'', bg_block_name = ''blk'',
        bg_envs = [(''dev'', (''sa1'', ''67d2804ef38a8bfdf0172bce'')),
                   (''prod'', (''sb1'', ''0123456789abcdef01234567''))]\<rparr>) = bi_block_name r"
    by blast
  from n have "bi_scenario_name r = ''S1''" "bi_block_name r = ''blk''"
    by simp_all
  with x r k have d2: "\<exists>x r. x \<in> set (search_blocks_multi_env example_envs ''BL'') \<and> r \<in> set (snd x) \<and>
      ''S1::blk'' = group_key r \<and> bi_scenario_name r = ''S1'' \<and> bi_block_name r = ''blk''"
    by blast
  have d3: "bi_block_name (\<lparr>bi_scenario_id = ''sa1'', bi_scenario_name = ''S1'',
       bi_block_id = ''67d2804ef38a8bfdf0172bce'', bi_block_name = ''blk'', bi_env = None\<rparr>) = bi_block_name (\<lparr>bi_scenario_id = ''sb1'', bi_scenario_name = ''S1'',
       bi_block_id = ''0123456789abcdef01234567'', bi_block_name = ''blk'', bi_env = None\<rparr>)"
    using c3 by (rule conjunct2)
  show ?thesis
    by (rule conjI [OF h1 conjI [OF d1 conjI [OF h2 conjI [OF d2 conjI [OF h3 d3]]]]])
qed

text \<open>
  Claim C7 on a snapshot with the blocks \<open>b::c\<close> of the scenario \<open>a\<close> and \<open>c\<close> of the scenario
  \<open>a::b\<close>. The input \<^verbatim>\<open>c\<close> is no identifier, so the search is by name and finds both
  blocks, two logical items. Both have the key string \<^verbatim>\<open>a::b::c\<close>, and the search mode
  shows one row for them, with the names of the first block and the identifiers of the
  second, where the claim has one row for each logical item.
\<close>

theorem grouping_collision:
  "map (\<lambda>r. (bi_scenario_name r, bi_block_name r, bi_scenario_id r, bi_block_id r))
     (search_blocks colliding_snapshot ''c'') =
     [(''a'', ''b::c'', ''s1'', ''67d2804ef38a8bfdf0172bce''),
      (''a::b'', ''c'', ''s2'', ''0123456789abcdef01234567'')] \<and>
   main_search [(''dev'', Some colliding_snapshot)] ''c'' =
     NameResults
       [(''a::b::c'',
         \<lparr>bg_scenario_name = ''a'', bg_block_name = ''b::c'',
          bg_envs = [(''dev'', (''s2'', ''0123456789abcdef01234567''))]\<rparr>)]"
  by code_simp

end
